theory Spec2Isabelle
  imports Main
begin

section \<open>JavaScript values and coercions used by the service\<close>

text \<open>
  The request body is whatever the JSON or urlencoded body parser produced, so a payload
  and its fields are JavaScript values. \<open>JUndefined\<close> is what reading an absent property
  gives. An object is the list of its own properties, in source order, each key once;
  every property value is data, so none is callable. Strings are byte strings: text
  outside ASCII is its UTF-8 encoding.

  The service never computes with a number: it tests it and prints it. A number is kept
  by these two observations, whether it is truthy (neither zero nor \<open>NaN\<close>) and what
  \<open>Number.prototype.toString\<close> gives for it, so that every double has its value here.
\<close>

datatype number = Number (num_truthy: bool) (num_text: string)

datatype jsval =
    JUndefined
  | JNull
  | JBool bool
  | JNum number
  | JStr string
  | JArr "jsval list"
  | JObj "(string \<times> jsval) list"

text \<open>Truthiness, as tested by \<open>||\<close>, \<open>? :\<close>, \<open>if\<close> and \<open>filter(Boolean)\<close>.\<close>

fun truthy :: "jsval \<Rightarrow> bool" where
  "truthy JUndefined = False"
| "truthy JNull = False"
| "truthy (JBool b) = b"
| "truthy (JNum n) = num_truthy n"
| "truthy (JStr s) = (s \<noteq> [])"
| "truthy (JArr xs) = True"
| "truthy (JObj kvs) = True"

text \<open>\<open>a || b\<close>.\<close>

definition js_or :: "jsval \<Rightarrow> jsval \<Rightarrow> jsval" where
  "js_or a b = (if truthy a then a else b)"

text \<open>Property read \<open>v.k\<close> for the data keys the service reads: own properties only.\<close>

fun get :: "jsval \<Rightarrow> string \<Rightarrow> jsval" where
  "get (JObj kvs) k = (case map_of kvs k of Some v \<Rightarrow> v | None \<Rightarrow> JUndefined)"
| "get v k = JUndefined"

text \<open>A thrown \<open>Error\<close>: its name and its message.\<close>

datatype exn = Exn (exn_name: string) (exn_message: string)

text \<open>\<open>String(err)\<close> for an \<open>Error\<close>, and \<open>(err && err.message) || String(err)\<close>.\<close>

definition exn_to_string :: "exn \<Rightarrow> string" where
  "exn_to_string e =
     (if exn_message e = [] then exn_name e
      else if exn_name e = [] then exn_message e
      else exn_name e @ '': '' @ exn_message e)"

definition error_text :: "exn \<Rightarrow> string" where
  "error_text e = (if exn_message e \<noteq> [] then exn_message e else exn_to_string e)"

text \<open>The type errors of the conversions to a string.\<close>

definition cannot_convert :: exn where
  "cannot_convert = Exn ''TypeError'' ''Cannot convert object to primitive value''"

definition not_a_function :: exn where
  \<open>not_a_function = Exn ''TypeError'' ''(payload.source || "form").toString is not a function''\<close>

definition no_properties :: "string \<Rightarrow> exn" where
  "no_properties what = Exn ''TypeError'' (''Cannot read properties of '' @ what)"

text \<open>The number that an HTTP status is: a natural number, printed in decimal.\<close>

fun decimal :: "nat \<Rightarrow> string" where
  "decimal n = (if n < 10 then [char_of (48 + n)]
                else decimal (n div 10) @ [char_of (48 + n mod 10)])"

declare decimal.simps [simp del]

definition status_number :: "nat \<Rightarrow> jsval" where
  "status_number n = JNum (Number (n \<noteq> 0) (decimal n))"

text \<open>One computation that may throw after another.\<close>

definition and_then :: "exn + 'a \<Rightarrow> ('a \<Rightarrow> exn + 'b) \<Rightarrow> exn + 'b" where
  "and_then r f = (case r of Inl e \<Rightarrow> Inl e | Inr x \<Rightarrow> f x)"

text \<open>Joining already converted pieces with a separator.\<close>

fun intercalate :: "string \<Rightarrow> string list \<Rightarrow> string" where
  "intercalate sep [] = []"
| "intercalate sep [x] = x"
| "intercalate sep (x # y # ys) = x @ sep @ intercalate sep (y # ys)"

text \<open>
  The conversion of \<open>String(v)\<close>, of a template literal and of the elements of a join.
  An array converts as \<open>join(",")\<close>; inside a join, \<open>undefined\<close> and \<open>null\<close> elements give
  the empty string. An object converts through its \<open>toString\<close>: the inherited one gives
  \<open>[object Object]\<close>; an own property of that name shadows it, is not callable, and
  neither is anything \<open>valueOf\<close> could add, so the conversion throws.
\<close>

fun ToString :: "jsval \<Rightarrow> exn + string"
  and elements :: "jsval list \<Rightarrow> exn + string list" where
  "ToString JUndefined = Inr ''undefined''"
| "ToString JNull = Inr ''null''"
| "ToString (JBool b) = Inr (if b then ''true'' else ''false'')"
| "ToString (JNum n) = Inr (num_text n)"
| "ToString (JStr s) = Inr s"
| "ToString (JArr xs) =
     (case elements xs of Inl e \<Rightarrow> Inl e | Inr ps \<Rightarrow> Inr (intercalate '','' ps))"
| "ToString (JObj kvs) =
     (case map_of kvs ''toString'' of
        None \<Rightarrow> Inr ''[object Object]''
      | Some f \<Rightarrow> Inl cannot_convert)"
| "elements [] = Inr []"
| "elements (x # xs) =
     (case (if x = JUndefined \<or> x = JNull then Inr [] else ToString x) of
        Inl e \<Rightarrow> Inl e
      | Inr p \<Rightarrow> (case elements xs of Inl e \<Rightarrow> Inl e | Inr ps \<Rightarrow> Inr (p # ps)))"

text \<open>\<open>xs.join(sep)\<close>.\<close>

definition join :: "string \<Rightarrow> jsval list \<Rightarrow> exn + string" where
  "join sep xs = and_then (elements xs) (\<lambda>ps. Inr (intercalate sep ps))"

text \<open>
  The method call \<open>v.toString()\<close>: an own \<open>toString\<close> property of an object is what gets
  called, and it is not a function.
\<close>

fun toString_method :: "jsval \<Rightarrow> exn + string" where
  "toString_method JUndefined = Inl (no_properties ''undefined'')"
| "toString_method JNull = Inl (no_properties ''null'')"
| "toString_method (JObj kvs) =
     (case map_of kvs ''toString'' of
        None \<Rightarrow> Inr ''[object Object]''
      | Some f \<Rightarrow> Inl not_a_function)"
| "toString_method v = ToString v"

section \<open>The world outside the process\<close>

text \<open>How a promise settles, if it does.\<close>

datatype 'a settled = Fulfilled 'a | Rejected exn | Unsettled

text \<open>The response of the spreadsheet endpoint: status, and how \<open>text()\<close> settles.\<close>

datatype response = Response (resp_status: nat) (resp_text: "string settled")

definition resp_ok :: "response \<Rightarrow> bool" where
  "resp_ok r = (200 \<le> resp_status r \<and> resp_status r \<le> 299)"

text \<open>
  The awaited calls into the headless browser: \<open>chromium.executablePath()\<close>,
  \<open>puppeteer.launch(...)\<close>, \<open>browser.newPage()\<close>, \<open>page.goto(url, { timeout })\<close>,
  \<open>page.$(sel)\<close>, \<open>page.type(sel, text)\<close>, \<open>submitHandle.click()\<close>,
  \<open>page.waitForSelector(sel, { timeout })\<close> and \<open>browser.close()\<close>.
\<close>

datatype call =
    ExecutablePath
  | Launch
  | NewPage
  | Goto string nat
  | Query string
  | Type string string
  | Click
  | WaitForSelector string nat
  | Close

text \<open>
  Everything the handler cannot decide: the process environment, the directory of the
  script, the clock (\<open>clock env n\<close> is the time read after \<open>n\<close> effects), the
  lowercasing of text beyond ASCII, the spreadsheet endpoint (its call has no timeout and
  may never settle), the partner page (which awaited call rejects, which selector
  matches; each browser call settles, bounded by the timeout given or by the browser
  driver's own), the file system (whether an append fails) and the event loop
  (\<open>completes env k\<close> lists, by position among the outstanding appends, those whose
  callbacks run while the code is suspended at its \<open>k\<close>-th \<open>await\<close>, in the order
  they run).
\<close>

record env =
  getenv :: "string \<Rightarrow> string option"
  dirname :: string
  clock :: "nat \<Rightarrow> string"
  lower_unicode :: "string \<Rightarrow> string"
  fetch_result :: "response settled"
  rejects :: "call \<Rightarrow> exn option"
  present :: "string \<Rightarrow> bool"
  disk_error :: "string \<Rightarrow> jsval \<Rightarrow> exn option"
  completes :: "nat \<Rightarrow> nat list"

text \<open>
  \<open>s.toLowerCase()\<close>: on ASCII text the letters A to Z are lowered; text with other
  characters is lowered by the Unicode rules, which the world supplies.
\<close>

definition lower_char :: "char \<Rightarrow> char" where
  "lower_char c = (let n = (of_char c :: nat) in
                   if 65 \<le> n \<and> n \<le> 90 then char_of (n + 32) else c)"

definition ascii :: "char \<Rightarrow> bool" where
  "ascii c = ((of_char c :: nat) < 128)"

definition toLowerCase :: "env \<Rightarrow> string \<Rightarrow> string" where
  "toLowerCase env s = (if list_all ascii s then map lower_char s else lower_unicode env s)"

text \<open>\<open>process.env.X || fallback\<close>.\<close>

definition env_or :: "env \<Rightarrow> string \<Rightarrow> string \<Rightarrow> string" where
  "env_or env k fallback =
     (case getenv env k of Some v \<Rightarrow> (if v \<noteq> [] then v else fallback) | None \<Rightarrow> fallback)"

definition SHEET_URL :: "env \<Rightarrow> string" where
  "SHEET_URL env = env_or env ''SHEET_URL''
     ''https://script.google.com/macros/s/AKfycbxk4sV2xLZcKbnMQRtaMer-FxeFsUk1JjvivIK4g6f5fFFlXvQfzD92GsbEurjN7Fvw/exec''"

definition ROCKETOUR_URL :: "env \<Rightarrow> string" where
  "ROCKETOUR_URL env = env_or env ''ROCKETOUR_URL'' ''https://rocketour.co/affiliate-form/''"

definition AFFILIATE_ID :: "env \<Rightarrow> string" where
  "AFFILIATE_ID env = env_or env ''AFFILIATE_ID'' ''242''"

text \<open>\<open>path.join(a, b)\<close> for a directory and a plain file name.\<close>

definition path_join :: "string \<Rightarrow> string \<Rightarrow> string" where
  "path_join a b = a @ ''/'' @ b"

definition LOG_DIR :: "env \<Rightarrow> string" where
  "LOG_DIR env = path_join (dirname env) ''logs''"

definition GENERAL_LOG :: "env \<Rightarrow> string" where
  "GENERAL_LOG env = path_join (LOG_DIR env) ''submission.log''"

definition WHATSAPP_LOG :: "env \<Rightarrow> string" where
  "WHATSAPP_LOG env = path_join (LOG_DIR env) ''whatsapp.log''"

definition SHEET_FAIL_LOG :: "env \<Rightarrow> string" where
  "SHEET_FAIL_LOG env = path_join (LOG_DIR env) ''sheet_fail.log''"

definition ROCKETOUR_LOG :: "env \<Rightarrow> string" where
  "ROCKETOUR_LOG env = path_join (LOG_DIR env) ''rockettour.log''"

section \<open>Effects\<close>

text \<open>
  What the process does, in the order it does it. \<open>AppendFile\<close> is the call of
  \<open>fs.appendFile\<close> (the line is kept as the object handed to \<open>JSON.stringify\<close>);
  \<open>AppendCallback\<close> is the later run of its callback, which is when the append has
  completed (or failed). \<open>Fetch\<close> is the call of \<open>fetch\<close> with the POST body,
  \<open>Respond\<close> is \<open>res.status(n).json(v)\<close>, \<open>Invoke\<close> an awaited browser call.
  Console output is kept by its message.
\<close>

datatype event =
    AppendFile string jsval
  | AppendCallback string jsval "exn option"
  | ConsoleLog string
  | ConsoleError string
  | Fetch string jsval
  | ReadText
  | Respond nat jsval
  | Invoke call

text \<open>
  The state of one submission: the effects so far, the appends handed to the file
  system whose callback has not run yet, and the number of \<open>await\<close>s passed.
\<close>

record state =
  trace :: "event list"
  pending :: "(string \<times> jsval) list"
  awaits :: nat

definition init :: state where
  "init = \<lparr>trace = [], pending = [], awaits = 0\<rparr>"

definition emit :: "event \<Rightarrow> state \<Rightarrow> state" where
  "emit e s = s\<lparr>trace := trace s @ [e]\<rparr>"

text \<open>The callback of \<open>fs.appendFile\<close>: \<open>(err) => { if (err) console.error(...) }\<close>.\<close>

definition callback :: "env \<Rightarrow> string \<times> jsval \<Rightarrow> event list" where
  "callback env w =
     (case disk_error env (fst w) (snd w) of
        None \<Rightarrow> [AppendCallback (fst w) (snd w) None]
      | Some err \<Rightarrow> [AppendCallback (fst w) (snd w) (Some err), ConsoleError ''Log write failed:''])"

text \<open>The outstanding appends whose callbacks run at this \<open>await\<close>, and those callbacks.\<close>

definition due :: "env \<Rightarrow> state \<Rightarrow> nat list" where
  "due env s = filter (\<lambda>i. i < length (pending s)) (remdups (completes env (awaits s)))"

definition callbacks :: "env \<Rightarrow> state \<Rightarrow> event list" where
  "callbacks env s = concat (map (\<lambda>i. callback env (pending s ! i)) (due env s))"

text \<open>
  An \<open>await\<close>: the running code is suspended and the event loop runs callbacks that are
  due. Callbacks run at no other point: JavaScript code runs to completion.
\<close>

definition await :: "env \<Rightarrow> state \<Rightarrow> state" where
  "await env s =
     s\<lparr>trace := trace s @ callbacks env s,
       pending := map (\<lambda>i. pending s ! i)
                    (filter (\<lambda>i. i \<notin> set (completes env (awaits s))) [0..<length (pending s)]),
       awaits := Suc (awaits s)\<rparr>"

section \<open>The service\<close>

text \<open>
  \<open>appendJsonLine(filePath, obj)\<close>: the line is \<open>{ ts: new Date().toISOString(), ...obj }\<close>;
  the append is handed to the file system and the function returns without waiting.
\<close>

definition appendJsonLine :: "env \<Rightarrow> string \<Rightarrow> (string \<times> jsval) list \<Rightarrow> state \<Rightarrow> state" where
  "appendJsonLine env filePath obj s =
     (let line = JObj ((''ts'', JStr (clock env (length (trace s)))) # obj)
      in s\<lparr>trace := trace s @ [AppendFile filePath line],
           pending := pending s @ [(filePath, line)]\<rparr>)"

text \<open>\<open>logConsole(msg, obj)\<close>, kept by its message.\<close>

definition logConsole :: "string \<Rightarrow> state \<Rightarrow> state" where
  "logConsole msg s = emit (ConsoleLog msg) s"

text \<open>A step of the \<open>try\<close> block: it returns, or throws, and changes the state.\<close>

type_synonym 'a task = "state \<Rightarrow> (exn + 'a) \<times> state"

definition return :: "'a \<Rightarrow> 'a task" where
  "return x s = (Inr x, s)"

definition bind :: "'a task \<Rightarrow> ('a \<Rightarrow> 'b task) \<Rightarrow> 'b task" where
  "bind m f s = (case m s of (Inl e, s') \<Rightarrow> (Inl e, s') | (Inr x, s') \<Rightarrow> f x s')"

definition throw :: "exn \<Rightarrow> 'a task" where
  "throw e s = (Inl e, s)"

text \<open>Statements one after the other; the first throw ends the sequence.\<close>

fun seq :: "unit task list \<Rightarrow> unit task" where
  "seq [] s = (Inr (), s)"
| "seq (m # ms) s = (case m s of (Inl e, s') \<Rightarrow> (Inl e, s') | (Inr u, s') \<Rightarrow> seq ms s')"

text \<open>\<open>await c\<close> for a browser call \<open>c\<close>.\<close>

definition invoke :: "env \<Rightarrow> call \<Rightarrow> unit task" where
  "invoke env c s =
     (let s' = await env (emit (Invoke c) s)
      in case rejects env c of None \<Rightarrow> (Inr (), s') | Some e \<Rightarrow> (Inl e, s'))"

text \<open>\<open>await page.$(sel)\<close>: whether a handle came back.\<close>

definition query :: "env \<Rightarrow> string \<Rightarrow> bool task" where
  "query env sel = bind (invoke env (Query sel)) (\<lambda>u. return (present env sel))"

text \<open>
  \<open>if (await page.$(sel)) { await page.type(sel, text); }\<close>, where the expression for the
  text is evaluated, and may throw, once the field was found and before the call.
\<close>

definition fill :: "env \<Rightarrow> string \<Rightarrow> exn + string \<Rightarrow> unit task" where
  "fill env sel text =
     bind (query env sel) (\<lambda>found.
       if found
       then (case text of Inl e \<Rightarrow> throw e | Inr t \<Rightarrow> invoke env (Type sel t))
       else return ())"

section \<open>The replication in the background\<close>

text \<open>The selectors and the fixed texts, the Hebrew ones as their UTF-8 bytes.\<close>

definition sel_affiliateId :: string where
  \<open>sel_affiliateId = ''input[name="affiliateId"]''\<close>

definition sel_city :: string where
  \<open>sel_city = ''input[name="city"]''\<close>

definition sel_leadName :: string where
  \<open>sel_leadName = ''input[name="leadName"]''\<close>

definition sel_leadPhone :: string where
  \<open>sel_leadPhone = ''input[name="leadPhone"]''\<close>

definition sel_notes :: string where
  \<open>sel_notes = ''textarea[name="notes"]''\<close>

definition sel_submit :: string where
  \<open>sel_submit = ''button[type="submit"], input[type="submit"], form button[type="submit"]''\<close>

definition sel_success :: string where
  \<open>sel_success = ''div[class*="bg-green"], div[class*="bg-green-50"]''\<close>

definition city_value :: string where
  "city_value = [CHR 0xD7, CHR 0xA8, CHR 0xD7, CHR 0x95, CHR 0xD7, CHR 0x9E, CHR 0xD7, CHR 0x90]"

definition participants_label :: string where
  "participants_label =
     [CHR 0xD7, CHR 0x9E, CHR 0xD7, CHR 0xA1, CHR 0xD7, CHR 0xA4, CHR 0xD7, CHR 0xA8, CHR 0x20,
      CHR 0xD7, CHR 0x9E, CHR 0xD7, CHR 0xA9, CHR 0xD7, CHR 0xAA, CHR 0xD7, CHR 0xAA, CHR 0xD7,
      CHR 0xA4, CHR 0xD7, CHR 0x99, CHR 0xD7, CHR 0x9D, CHR 0x3A, CHR 0x20]"

definition sent_by_whatsapp :: string where
  "sent_by_whatsapp =
     [CHR 0xD7, CHR 0xA0, CHR 0xD7, CHR 0xA9, CHR 0xD7, CHR 0x9C, CHR 0xD7, CHR 0x97, CHR 0x20,
      CHR 0xD7, CHR 0x91, CHR 0xD7, CHR 0x95, CHR 0xD7, CHR 0x95, CHR 0xD7, CHR 0x90, CHR 0xD7,
      CHR 0x98, CHR 0xD7, CHR 0xA1, CHR 0xD7, CHR 0x90, CHR 0xD7, CHR 0xA4]"

definition sent_by_form :: string where
  "sent_by_form =
     [CHR 0xD7, CHR 0xA0, CHR 0xD7, CHR 0xA9, CHR 0xD7, CHR 0x9C, CHR 0xD7, CHR 0x97, CHR 0x20,
      CHR 0xD7, CHR 0x91, CHR 0xD7, CHR 0x98, CHR 0xD7, CHR 0x95, CHR 0xD7, CHR 0xA4, CHR 0xD7,
      CHR 0xA1]"

text \<open>\<open>`...: ${v}`\<close> pushed when \<open>v\<close> is truthy: one part, or none.\<close>

definition participants_part :: "jsval \<Rightarrow> exn + jsval list" where
  "participants_part v =
     (if truthy v
      then and_then (ToString v) (\<lambda>t. Inr [JStr (participants_label @ t)])
      else Inr [])"

text \<open>\<open>Array.isArray(data.tours) ? data.tours.join(", ") : String(data.tours)\<close>, when truthy.\<close>

definition tours_part :: "jsval \<Rightarrow> exn + jsval list" where
  "tours_part v =
     (if truthy v
      then and_then (case v of JArr xs \<Rightarrow> join '', '' xs | _ \<Rightarrow> ToString v) (\<lambda>t. Inr [JStr t])
      else Inr [])"

text \<open>
  The notes (\<open>const notes\<close> in the source): \<open>notesParts\<close> collects the parts in the
  order of the source, \<open>filter(Boolean)\<close> drops the falsy ones, \<open>join("\n")\<close> glues the
  rest. Each conversion may throw.
\<close>

definition notesParts :: "jsval \<Rightarrow> string \<Rightarrow> exn + jsval list" where
  "notesParts data src =
     and_then (participants_part (get data ''npart'')) (\<lambda>p1.
     and_then (participants_part (get data ''participants'')) (\<lambda>p2.
     and_then (tours_part (get data ''tours'')) (\<lambda>p4.
       Inr (p1 @ p2
            @ (if truthy (get data ''tour_details'') then [get data ''tour_details''] else [])
            @ p4
            @ [JStr (if src = ''whatsapp'' then sent_by_whatsapp else sent_by_form)]))))"

definition notes_of :: "jsval \<Rightarrow> string \<Rightarrow> exn + string" where
  "notes_of data src =
     and_then (notesParts data src) (\<lambda>parts. join [CHR 0x0A] (filter truthy parts))"

text \<open>\<open>data.name ? String(data.name) : ""\<close>, and the same for the phone.\<close>

definition lead_text :: "jsval \<Rightarrow> exn + string" where
  "lead_text v = (if truthy v then ToString v else Inr [])"

text \<open>
  After the click: the inner \<open>try\<close> around \<open>waitForSelector\<close>, whose \<open>catch\<close> swallows
  the rejection.
\<close>

definition waitForSuccess :: "env \<Rightarrow> jsval \<Rightarrow> unit task" where
  "waitForSuccess env data s =
     (case invoke env (WaitForSelector sel_success 5000) s of
        (Inr u, s') \<Rightarrow>
          (Inr (), logConsole ''Rocketour: success box detected.''
             (appendJsonLine env (ROCKETOUR_LOG env)
                [(''status'', JStr ''success_detected''), (''payload'', data)] s'))
      | (Inl errSel, s') \<Rightarrow>
          (Inr (), logConsole ''Rocketour: submitted but no green success box found (logged).''
             (appendJsonLine env (ROCKETOUR_LOG env)
                [(''status'', JStr ''submitted_no_green_box''), (''payload'', data)] s')))"

text \<open>The submit control: \<open>if (submitHandle) { click, wait } else { log the error }\<close>.\<close>

definition submit :: "env \<Rightarrow> jsval \<Rightarrow> unit task" where
  "submit env data =
     bind (query env sel_submit) (\<lambda>submitHandle.
       if submitHandle
       then bind (invoke env Click) (\<lambda>u. waitForSuccess env data)
       else (\<lambda>s. (Inr (), logConsole ''Rocketour: no submit button found on page.''
               (appendJsonLine env (ROCKETOUR_LOG env)
                  [(''error'', JStr ''no_submit_button_found''), (''payload'', data)] s))))"

text \<open>The notes are composed, which may throw, and then the notes field is filled.\<close>

definition fillNotes :: "env \<Rightarrow> jsval \<Rightarrow> string \<Rightarrow> unit task" where
  "fillNotes env data src s =
     (case notes_of data src of
        Inl e \<Rightarrow> (Inl e, s)
      | Inr notes \<Rightarrow> fill env sel_notes (Inr notes) s)"

text \<open>The statements of the outer \<open>try\<close> block before the submit control is looked for.\<close>

definition fillForm :: "env \<Rightarrow> jsval \<Rightarrow> string \<Rightarrow> unit task list" where
  "fillForm env data src =
     [invoke env ExecutablePath,
      invoke env Launch,
      invoke env NewPage,
      invoke env (Goto (ROCKETOUR_URL env) 30000),
      fill env sel_affiliateId (Inr (AFFILIATE_ID env)),
      fill env sel_city (Inr city_value),
      fill env sel_leadName (lead_text (get data ''name'')),
      fill env sel_leadPhone (lead_text (get data ''phone'')),
      fillNotes env data src]"

text \<open>The outer \<open>try\<close> block; \<open>browser.close()\<close> is its last statement.\<close>

definition tryBlock :: "env \<Rightarrow> jsval \<Rightarrow> string \<Rightarrow> unit task" where
  "tryBlock env data src = seq (fillForm env data src @ [submit env data, invoke env Close])"

text \<open>
  \<open>backgroundRocketourSubmission(data, src, clientIp)\<close>: the \<open>try\<close> block and its
  \<open>catch (bgErr)\<close>.
\<close>

definition backgroundRocketourSubmission ::
    "env \<Rightarrow> jsval \<Rightarrow> string \<Rightarrow> jsval \<Rightarrow> state \<Rightarrow> state" where
  "backgroundRocketourSubmission env data src clientIp s =
     (case tryBlock env data src (logConsole ''Rocketour background submission started.'' s) of
        (Inr u, s') \<Rightarrow> s'
      | (Inl bgErr, s') \<Rightarrow>
          logConsole ''Rocketour background error:''
            (appendJsonLine env (ROCKETOUR_LOG env)
               [(''error'', JStr (error_text bgErr)), (''payload'', data)] s'))"

section \<open>The submit handler\<close>

record request =
  req_body :: jsval
  req_headers :: "string \<Rightarrow> jsval"
  req_ip :: jsval

text \<open>
  \<open>const payload = req.body || {}\<close> and the source it resolves to,
  \<open>(payload.source || "form").toString().toLowerCase()\<close>, whose method call may throw.
\<close>

definition payload_of :: "request \<Rightarrow> jsval" where
  "payload_of req = js_or (req_body req) (JObj [])"

definition source_of :: "env \<Rightarrow> jsval \<Rightarrow> exn + string" where
  "source_of env payload =
     and_then (toString_method (js_or (get payload ''source'') (JStr ''form'')))
       (\<lambda>s. Inr (toLowerCase env s))"

definition ip_of :: "request \<Rightarrow> jsval" where
  "ip_of req =
     js_or (js_or (req_headers req ''cf-connecting-ip'') (req_headers req ''x-forwarded-for''))
       (req_ip req)"

text \<open>
  How far a piece of the handler gets: to its end, to a throw that the handler does not
  catch, or to an \<open>await\<close> on a promise that never settles.
\<close>

datatype completion = Completed | Thrown exn | Suspended

text \<open>
  Step 1 of the handler: the awaited POST to the spreadsheet, in its \<open>try\<close>/\<open>catch\<close>.
  \<open>fetch\<close> is called without a timeout.
\<close>

definition saveToSheets :: "env \<Rightarrow> jsval \<Rightarrow> state \<Rightarrow> completion \<times> state" where
  "saveToSheets env payload s =
     (let s1 = await env (emit (Fetch (SHEET_URL env) payload) s)
      in case fetch_result env of
           Unsettled \<Rightarrow> (Suspended, s1)
         | Rejected err \<Rightarrow>
             (Completed,
              logConsole ''Google Sheets exception (saved locally).''
                (appendJsonLine env (SHEET_FAIL_LOG env)
                   [(''error'', JStr (error_text err)), (''payload'', payload)] s1))
         | Fulfilled sheetResp \<Rightarrow>
             if \<not> resp_ok sheetResp
             then (let s2 = await env (emit ReadText s1)
                   in case resp_text sheetResp of
                        Unsettled \<Rightarrow> (Suspended, s2)
                      | Rejected e \<Rightarrow>
                          (Completed,
                           logConsole ''Google Sheets returned non-OK''
                             (appendJsonLine env (SHEET_FAIL_LOG env)
                                [(''status'', status_number (resp_status sheetResp)),
                                 (''text'', JStr []), (''payload'', payload)] s2))
                      | Fulfilled t \<Rightarrow>
                          (Completed,
                           logConsole ''Google Sheets returned non-OK''
                             (appendJsonLine env (SHEET_FAIL_LOG env)
                                [(''status'', status_number (resp_status sheetResp)),
                                 (''text'', JStr t), (''payload'', payload)] s2)))
             else (Completed, logConsole ''Saved to Google Sheets (OK).'' s1))"

definition ack :: jsval where
  "ack = JObj [(''ok'', JBool True)]"

text \<open>
  The handler of \<open>POST /formnew/submit\<close>. The source is resolved before anything is
  logged; the reply and the replication come after the awaited relay.
\<close>

definition post_formnew_submit :: "env \<Rightarrow> request \<Rightarrow> state \<Rightarrow> completion \<times> state" where
  "post_formnew_submit env req s =
     (let payload = payload_of req
      in case source_of env payload of
           Inl e \<Rightarrow> (Thrown e, s)
         | Inr source \<Rightarrow>
             (let ip = ip_of req;
                  s1 = appendJsonLine env (GENERAL_LOG env)
                         [(''ip'', ip), (''source'', JStr source), (''payload'', payload)] s;
                  s2 = (if source = ''whatsapp''
                        then appendJsonLine env (WHATSAPP_LOG env)
                               [(''ip'', ip), (''payload'', payload)] s1
                        else s1)
              in case saveToSheets env payload s2 of
                   (Completed, s3) \<Rightarrow>
                     (Completed,
                      backgroundRocketourSubmission env payload source ip
                        (emit (Respond 200 ack) s3))
                 | (stopped, s3) \<Rightarrow> (stopped, s3)))"

section \<open>Reading a trace\<close>

text \<open>The lines handed to \<open>fs.appendFile\<close> for file \<open>f\<close>, in order.\<close>

fun appended :: "string \<Rightarrow> event list \<Rightarrow> jsval list" where
  "appended f [] = []"
| "appended f (AppendFile f' l # es) = (if f' = f then l # appended f es else appended f es)"
| "appended f (e # es) = appended f es"

text \<open>A line without its leading timestamp, and the lines of a file read that way.\<close>

fun without_ts :: "jsval \<Rightarrow> jsval" where
  "without_ts (JObj ((k, v) # kvs)) = (if k = ''ts'' then JObj kvs else JObj ((k, v) # kvs))"
| "without_ts v = v"

definition logged :: "string \<Rightarrow> event list \<Rightarrow> jsval list" where
  "logged f es = map without_ts (appended f es)"

text \<open>The replies sent: status and body.\<close>

fun responses :: "event list \<Rightarrow> (nat \<times> jsval) list" where
  "responses [] = []"
| "responses (Respond n v # es) = (n, v) # responses es"
| "responses (e # es) = responses es"

text \<open>The texts typed into the field that selector \<open>sel\<close> names, in order.\<close>

fun typed :: "string \<Rightarrow> event list \<Rightarrow> string list" where
  "typed sel [] = []"
| "typed sel (Invoke (Type sel' text) # es) =
     (if sel' = sel then text # typed sel es else typed sel es)"
| "typed sel (e # es) = typed sel es"

text \<open>An outcome line that carries a \<open>status\<close> (the success and the inconclusive one do).\<close>

definition has_status :: "jsval \<Rightarrow> bool" where
  "has_status l = (get l ''status'' \<noteq> JUndefined)"

text \<open>
  The effects between two states, and those of one replication attempt and of one
  submission, each started in any state.
\<close>

definition since :: "state \<Rightarrow> state \<Rightarrow> event list" where
  "since s s' = drop (length (trace s)) (trace s')"

definition attempt :: "env \<Rightarrow> jsval \<Rightarrow> string \<Rightarrow> jsval \<Rightarrow> state \<Rightarrow> event list" where
  "attempt env data src clientIp s =
     since s (backgroundRocketourSubmission env data src clientIp s)"

definition submission :: "env \<Rightarrow> request \<Rightarrow> state \<Rightarrow> event list" where
  "submission env req s = since s (snd (post_formnew_submit env req s))"

section \<open>Kinds of effects\<close>

text \<open>What the event loop does while the code is suspended.\<close>

fun runtime_event :: "event \<Rightarrow> bool" where
  "runtime_event (AppendCallback f l r) = True"
| "runtime_event (ConsoleError m) = True"
| "runtime_event e = False"

text \<open>
  \<open>extends Q s s'\<close>: going from \<open>s\<close> to \<open>s'\<close> only adds effects, each of them the
  event loop's or one that \<open>Q\<close> admits.
\<close>

definition extends :: "(event \<Rightarrow> bool) \<Rightarrow> state \<Rightarrow> state \<Rightarrow> bool" where
  "extends Q s s' \<longleftrightarrow>
     (\<exists>es. trace s' = trace s @ es \<and> list_all (\<lambda>e. runtime_event e \<or> Q e) es)"

text \<open>Effects that neither probe nor fill the field of selector \<open>sel\<close>.\<close>

fun not_probing :: "string \<Rightarrow> event \<Rightarrow> bool" where
  "not_probing sel (Invoke (Query sel')) = (sel' \<noteq> sel)"
| "not_probing sel (Invoke (Type sel' text)) = (sel' \<noteq> sel)"
| "not_probing sel e = True"

text \<open>The browser calls made while the form is opened and filled.\<close>

fun form_event :: "event \<Rightarrow> bool" where
  "form_event (Invoke ExecutablePath) = True"
| "form_event (Invoke Launch) = True"
| "form_event (Invoke NewPage) = True"
| "form_event (Invoke (Goto url t)) = True"
| "form_event (Invoke (Query sel)) = (sel \<noteq> sel_submit)"
| "form_event (Invoke (Type sel text)) = True"
| "form_event e = False"

text \<open>The effects of a replication attempt, and those of the relay after its \<open>fetch\<close>.\<close>

fun attempt_event :: "env \<Rightarrow> event \<Rightarrow> bool" where
  "attempt_event env (Invoke c) = True"
| "attempt_event env (ConsoleLog m) = True"
| "attempt_event env (AppendFile f l) = (f = ROCKETOUR_LOG env)"
| "attempt_event env e = False"

fun relay_event :: "env \<Rightarrow> event \<Rightarrow> bool" where
  "relay_event env ReadText = True"
| "relay_event env (ConsoleLog m) = (m \<noteq> ''Rocketour background submission started.'')"
| "relay_event env (AppendFile f l) = (f = SHEET_FAIL_LOG env)"
| "relay_event env e = False"

text \<open>A conversion that does not throw; and a submission all of whose conversions for the form do not.\<close>

definition succeeds :: "exn + 'a \<Rightarrow> bool" where
  "succeeds r = (case r of Inl e \<Rightarrow> False | Inr x \<Rightarrow> True)"

definition converts :: "jsval \<Rightarrow> string \<Rightarrow> bool" where
  "converts data src \<longleftrightarrow>
     succeeds (lead_text (get data ''name'')) \<and> succeeds (lead_text (get data ''phone''))
     \<and> succeeds (notes_of data src)"

text \<open>
  The \<open>catch (bgErr)\<close> clause of the background function, applied to the outcome of its
  \<open>try\<close> block; and the attempt from the probe for the submit control on.
\<close>

definition finish :: "env \<Rightarrow> jsval \<Rightarrow> (exn + unit) \<times> state \<Rightarrow> state" where
  "finish env data r =
     (case r of
        (Inr u, s') \<Rightarrow> s'
      | (Inl bgErr, s') \<Rightarrow>
          logConsole ''Rocketour background error:''
            (appendJsonLine env (ROCKETOUR_LOG env)
               [(''error'', JStr (error_text bgErr)), (''payload'', data)] s'))"

definition after_form :: "env \<Rightarrow> jsval \<Rightarrow> state \<Rightarrow> state" where
  "after_form env data s =
     finish env data
       (case submit env data s of
          (Inl e, s') \<Rightarrow> (Inl e, s')
        | (Inr u, s') \<Rightarrow> invoke env Close s')"

section \<open>What the claims speak of\<close>

text \<open>
  The relay settles: \<open>fetch\<close> is answered or rejected and, after an answer that is not
  OK, the reading of its text ends.
\<close>

definition relay_settles :: "env \<Rightarrow> bool" where
  "relay_settles env =
     (case fetch_result env of
        Unsettled \<Rightarrow> False
      | Rejected e \<Rightarrow> True
      | Fulfilled r \<Rightarrow> (if resp_ok r then True else resp_text r \<noteq> Unsettled))"

text \<open>The replication has started: the background function was entered and made its first call.\<close>

definition replication_started :: "event list \<Rightarrow> bool" where
  "replication_started es \<longleftrightarrow>
     ConsoleLog ''Rocketour background submission started.'' \<in> set es
     \<and> Invoke ExecutablePath \<in> set es"

text \<open>
  The stage a submission is in when it performs an effect: the capture in the general
  and WhatsApp logs, the relay to the spreadsheet (with its failure log), the reply, the
  replication. Callbacks run by the event loop belong to no stage; of the console output
  only the line that opens the replication does.
\<close>

datatype stage = Capture | Relay | Reply | Replication

fun stage_of :: "env \<Rightarrow> event \<Rightarrow> stage option" where
  "stage_of env (AppendFile f l) =
     (if f = GENERAL_LOG env \<or> f = WHATSAPP_LOG env then Some Capture
      else if f = SHEET_FAIL_LOG env then Some Relay
      else if f = ROCKETOUR_LOG env then Some Replication
      else None)"
| "stage_of env (Fetch url b) = Some Relay"
| "stage_of env ReadText = Some Relay"
| "stage_of env (Respond n v) = Some Reply"
| "stage_of env (Invoke c) = Some Replication"
| "stage_of env (ConsoleLog m) =
     (if m = ''Rocketour background submission started.'' then Some Replication else None)"
| "stage_of env (AppendCallback f l r) = None"
| "stage_of env (ConsoleError m) = None"

text \<open>The stages of a trace, in order.\<close>

fun stages :: "env \<Rightarrow> event list \<Rightarrow> stage list" where
  "stages env [] = []"
| "stages env (e # es) =
     (case stage_of env e of None \<Rightarrow> stages env es | Some st \<Rightarrow> st # stages env es)"

text \<open>
  Whether the append to file \<open>f\<close> has completed (its callback has run, without an
  error) by the time \<open>fetch\<close> is first called.
\<close>

fun is_fetch :: "event \<Rightarrow> bool" where
  "is_fetch (Fetch url b) = True"
| "is_fetch e = False"

fun completion_of :: "string \<Rightarrow> event \<Rightarrow> bool" where
  "completion_of f (AppendCallback f' l r) = (f' = f \<and> r = None)"
| "completion_of f e = False"

definition completed_before_relay :: "string \<Rightarrow> event list \<Rightarrow> bool" where
  "completed_before_relay f es = list_ex (completion_of f) (takeWhile (\<lambda>e. \<not> is_fetch e) es)"

section \<open>Concrete worlds and submissions\<close>

text \<open>A world in which nothing fails and every selector matches.\<close>

definition quiet :: env where
  "quiet = \<lparr>getenv = (\<lambda>k. None), dirname = ''/srv/formnew'',
            clock = (\<lambda>n. ''2024-05-01T10:00:00.000Z''), lower_unicode = (\<lambda>t. t),
            fetch_result = Fulfilled (Response 200 (Fulfilled ''ok'')),
            rejects = (\<lambda>c. None), present = (\<lambda>sel. True),
            disk_error = (\<lambda>f l. None), completes = (\<lambda>k. [0])\<rparr>"

text \<open>The partner page without any submit control.\<close>

definition no_submit_page :: env where
  "no_submit_page = quiet\<lparr>present := (\<lambda>sel. sel \<noteq> sel_submit)\<rparr>"

text \<open>A lead with its tours given as a list.\<close>

definition lead :: jsval where
  "lead = JObj [(''name'', JStr ''Dana''), (''phone'', JStr ''0501234567''),
                (''npart'', JStr ''4''), (''tours'', JArr [JStr ''Colosseum'', JStr ''Vatican''])]"

text \<open>The partner page on which the success box never shows: the bounded wait times out.\<close>

definition wait_timeout :: exn where
  "wait_timeout = Exn ''TimeoutError'' ''Waiting for selector failed: 5000ms exceeded''"

definition no_indicator_page :: env where
  "no_indicator_page =
     quiet\<lparr>rejects := (\<lambda>c. if c = WaitForSelector sel_success 5000 then Some wait_timeout else None)\<rparr>"

text \<open>The partner site not answering: the navigation times out after the launch.\<close>

definition navigation_timeout :: exn where
  "navigation_timeout = Exn ''TimeoutError'' ''Navigation timeout of 30000 ms exceeded''"

definition unreachable_page :: env where
  "unreachable_page =
     quiet\<lparr>rejects := (\<lambda>c. case c of Goto url t \<Rightarrow> Some navigation_timeout | _ \<Rightarrow> None)\<rparr>"

text \<open>A submission that gives a phone number and no name.\<close>

definition nameless :: jsval where
  "nameless = JObj [(''phone'', JStr ''0501234567'')]"

text \<open>The same lead with its tours given as one delimited string, and two requests.\<close>

definition lead_flat :: jsval where
  "lead_flat = JObj [(''name'', JStr ''Dana''), (''phone'', JStr ''0501234567''),
                     (''npart'', JStr ''4''), (''tours'', JStr ''Colosseum, Vatican'')]"

definition form_request :: request where
  "form_request = \<lparr>req_body = lead, req_headers = (\<lambda>h. JUndefined), req_ip = JStr ''203.0.113.7''\<rparr>"

definition whatsapp_request :: request where
  "whatsapp_request =
     \<lparr>req_body = JObj [(''source'', JStr ''WhatsApp''), (''name'', JStr ''Dana''),
                       (''phone'', JStr ''0501234567'')],
      req_headers = (\<lambda>h. JUndefined), req_ip = JStr ''203.0.113.7''\<rparr>"

text \<open>
  The spreadsheet endpoint answering 500; refusing the connection; and accepting the
  request without ever answering.
\<close>

definition relay_500 :: env where
  "relay_500 = quiet\<lparr>fetch_result := Fulfilled (Response 500 (Fulfilled ''Internal Server Error''))\<rparr>"

definition relay_down :: env where
  "relay_down = quiet\<lparr>fetch_result := Rejected (Exn ''FetchError'' ''network timeout'')\<rparr>"

definition relay_silent :: env where
  "relay_silent = quiet\<lparr>fetch_result := Unsettled\<rparr>"

text \<open>A JSON body whose source is an object with a property named \<open>toString\<close>.\<close>

definition shadowing_request :: request where
  "shadowing_request =
     \<lparr>req_body = JObj [(''name'', JStr ''Dana''), (''phone'', JStr ''0501234567''),
                       (''source'', JObj [(''toString'', JStr ''x'')])],
      req_headers = (\<lambda>h. JUndefined), req_ip = JStr ''203.0.113.7''\<rparr>"

section \<open>How each operation extends the trace\<close>

lemma appended_append [simp]: "appended f (xs @ ys) = appended f xs @ appended f ys"
  by (induction f xs rule: appended.induct) auto

lemma responses_append [simp]: "responses (xs @ ys) = responses xs @ responses ys"
  by (induction xs rule: responses.induct) auto

lemma typed_append [simp]: "typed sel (xs @ ys) = typed sel xs @ typed sel ys"
  by (induction sel xs rule: typed.induct) auto

lemma trace_emit [simp]: "trace (emit e s) = trace s @ [e]"
  by (simp add: emit_def)

lemma trace_logConsole [simp]: "trace (logConsole m s) = trace s @ [ConsoleLog m]"
  by (simp add: logConsole_def)

lemma trace_await [simp]: "trace (await env s) = trace s @ callbacks env s"
  by (simp add: await_def)

lemma trace_appendJsonLine [simp]:
  "trace (appendJsonLine env f obj s) =
     trace s @ [AppendFile f (JObj ((''ts'', JStr (clock env (length (trace s)))) # obj))]"
  by (simp add: appendJsonLine_def Let_def)

lemma callbacks_runtime: "list_all runtime_event (callbacks env s)"
  by (auto simp: callbacks_def callback_def list_all_iff split: option.splits)

lemma runtime_no_invoke: "list_all runtime_event es \<Longrightarrow> Invoke c \<notin> set es"
  by (auto simp: list_all_iff)

lemma runtime_appended: "list_all runtime_event es \<Longrightarrow> appended f es = []"
  by (induction f es rule: appended.induct) auto

lemma runtime_typed: "list_all runtime_event es \<Longrightarrow> typed sel es = []"
  by (induction sel es rule: typed.induct) auto

lemma runtime_responses: "list_all runtime_event es \<Longrightarrow> responses es = []"
  by (induction es rule: responses.induct) auto

lemma appended_callbacks [simp]: "appended f (callbacks env s) = []"
  by (simp add: runtime_appended callbacks_runtime)

lemma typed_callbacks [simp]: "typed sel (callbacks env s) = []"
  by (simp add: runtime_typed callbacks_runtime)

lemma invoke_callbacks [simp]: "Invoke c \<notin> set (callbacks env s)"
  by (simp add: runtime_no_invoke callbacks_runtime)

lemma extends_refl [simp]: "extends Q s s"
  by (simp add: extends_def)

lemma extends_trans: "extends Q s s' \<Longrightarrow> extends Q s' s'' \<Longrightarrow> extends Q s s''"
  by (auto simp: extends_def)

lemma extends_mono: "extends Q s s' \<Longrightarrow> (\<And>e. Q e \<Longrightarrow> Q' e) \<Longrightarrow> extends Q' s s'"
  by (auto simp: extends_def list_all_iff)

lemma extends_emit: "Q e \<Longrightarrow> extends Q s (emit e s)"
  by (simp add: extends_def)

lemma extends_logConsole: "Q (ConsoleLog m) \<Longrightarrow> extends Q s (logConsole m s)"
  by (simp add: extends_def)

lemma extends_await: "extends Q s (await env s)"
  using callbacks_runtime [of env s] by (auto simp: extends_def list_all_iff)

lemma extends_appendJsonLine:
  "(\<And>l. Q (AppendFile f l)) \<Longrightarrow> extends Q s (appendJsonLine env f obj s)"
  by (simp add: extends_def)

lemma extends_invoke: "Q (Invoke c) \<Longrightarrow> extends Q s (snd (invoke env c s))"
  by (auto simp: invoke_def Let_def split: option.splits
      intro!: extends_trans [OF extends_emit extends_await])

lemma extends_query:
  assumes "Q (Invoke (Query sel))"
  shows "extends Q s (snd (query env sel s))"
  using extends_invoke [of Q "Query sel" s env] assms
  by (auto simp: query_def bind_def return_def split: prod.splits sum.splits)

lemma query_result:
  "fst (query env sel s) =
     (case rejects env (Query sel) of None \<Rightarrow> Inr (present env sel) | Some e \<Rightarrow> Inl e)"
  by (simp add: query_def bind_def return_def invoke_def Let_def split: option.splits)

lemma extends_fill:
  assumes "Q (Invoke (Query sel))"
    and "\<And>t. present env sel \<Longrightarrow> v = Inr t \<Longrightarrow> Q (Invoke (Type sel t))"
  shows "extends Q s (snd (fill env sel v s))"
proof (cases "query env sel s")
  case (Pair r s')
  have q: "extends Q s s'"
    using extends_query [of Q sel s env] assms(1) Pair by simp
  show ?thesis
  proof (cases r)
    case (Inl e)
    with Pair q show ?thesis by (simp add: fill_def bind_def)
  next
    case (Inr found)
    then have found: "found = present env sel"
      using query_result [of env sel s] Pair by (simp split: option.splits)
    show ?thesis
    proof (cases found)
      case True
      show ?thesis
      proof (cases v)
        case (Inl e)
        with q True Pair Inr show ?thesis
          by (simp add: fill_def bind_def throw_def)
      next
        case v: (Inr t)
        then have "extends Q s' (snd (invoke env (Type sel t) s'))"
          using assms(2) found True by (simp add: extends_invoke)
        with q True Pair Inr v show ?thesis
          by (auto simp: fill_def bind_def intro: extends_trans)
      qed
    next
      case False
      with q Pair Inr show ?thesis by (simp add: fill_def bind_def return_def)
    qed
  qed
qed

lemma extends_fillNotes:
  assumes "Q (Invoke (Query sel_notes))"
    and "\<And>t. present env sel_notes \<Longrightarrow> Q (Invoke (Type sel_notes t))"
  shows "extends Q s (snd (fillNotes env data src s))"
proof (cases "notes_of data src")
  case (Inl e)
  then show ?thesis by (simp add: fillNotes_def)
next
  case (Inr n)
  then show ?thesis
    using extends_fill [of Q sel_notes env "Inr n" s] assms
    by (simp add: fillNotes_def)
qed

lemma seq_append:
  "seq (xs @ ys) s =
     (case seq xs s of (Inl e, s') \<Rightarrow> (Inl e, s') | (Inr u, s') \<Rightarrow> seq ys s')"
  by (induction xs arbitrary: s) (auto split: prod.splits sum.splits)

lemma extends_seq:
  assumes "\<And>m s. m \<in> set ms \<Longrightarrow> extends Q s (snd (m s))"
  shows "extends Q s (snd (seq ms s))"
  using assms
proof (induction ms arbitrary: s)
  case Nil
  then show ?case by simp
next
  case (Cons m ms)
  have step: "extends Q s (snd (m s))" using Cons.prems by simp
  show ?case
  proof (cases "m s")
    case (Pair r s')
    show ?thesis
    proof (cases r)
      case (Inl e)
      with Pair step show ?thesis by simp
    next
      case (Inr u)
      have "extends Q s' (snd (seq ms s'))"
        using Cons.IH Cons.prems by simp
      with Pair Inr step show ?thesis by (auto intro: extends_trans)
    qed
  qed
qed

lemma extends_waitForSuccess:
  assumes "Q (Invoke (WaitForSelector sel_success 5000))"
    and "\<And>l. Q (AppendFile (ROCKETOUR_LOG env) l)" and "\<And>m. Q (ConsoleLog m)"
  shows "extends Q s (snd (waitForSuccess env data s))"
proof (cases "invoke env (WaitForSelector sel_success 5000) s")
  case (Pair r s')
  have w: "extends Q s s'"
    using extends_invoke [of Q "WaitForSelector sel_success 5000" s env] assms(1) Pair by simp
  have "extends Q s' (logConsole m (appendJsonLine env (ROCKETOUR_LOG env) obj s'))" for m obj
    using assms(2,3) by (simp add: extends_def)
  with w Pair show ?thesis
    by (cases r) (auto simp: waitForSuccess_def intro: extends_trans)
qed

lemma extends_submit:
  assumes "Q (Invoke (Query sel_submit))" and "Q (Invoke Click)"
    and "Q (Invoke (WaitForSelector sel_success 5000))"
    and "\<And>l. Q (AppendFile (ROCKETOUR_LOG env) l)" and "\<And>m. Q (ConsoleLog m)"
  shows "extends Q s (snd (submit env data s))"
proof (cases "query env sel_submit s")
  case (Pair r s')
  have q: "extends Q s s'"
    using extends_query [of Q sel_submit s env] assms(1) Pair by simp
  show ?thesis
  proof (cases r)
    case (Inl e)
    with Pair q show ?thesis by (simp add: submit_def bind_def)
  next
    case (Inr found)
    show ?thesis
    proof (cases found)
      case False
      have "extends Q s' (logConsole m (appendJsonLine env (ROCKETOUR_LOG env) obj s'))" for m obj
        using assms(4,5) by (simp add: extends_def)
      with q Pair Inr False show ?thesis
        by (auto simp: submit_def bind_def intro: extends_trans)
    next
      case True
      obtain r2 s2 where c: "invoke env Click s' = (r2, s2)" by fastforce
      have c': "extends Q s' s2"
        using extends_invoke [of Q Click s' env] assms(2) c by simp
      have "extends Q s2 (snd (waitForSuccess env data s2))"
        using assms by (simp add: extends_waitForSuccess)
      with q c' c Pair Inr True show ?thesis
        by (cases r2) (auto simp: submit_def bind_def intro: extends_trans)
    qed
  qed
qed


subsection \<open>Filling the form\<close>

lemma selectors_distinct:
  "sel_affiliateId \<noteq> sel_submit" "sel_city \<noteq> sel_submit" "sel_leadName \<noteq> sel_submit"
  "sel_leadPhone \<noteq> sel_submit" "sel_notes \<noteq> sel_submit"
  "sel_affiliateId \<noteq> sel_leadName" "sel_city \<noteq> sel_leadName" "sel_leadPhone \<noteq> sel_leadName"
  "sel_notes \<noteq> sel_leadName"
  "sel_affiliateId \<noteq> sel_leadPhone" "sel_city \<noteq> sel_leadPhone" "sel_leadName \<noteq> sel_leadPhone"
  "sel_notes \<noteq> sel_leadPhone"
  by (simp_all add: sel_submit_def sel_affiliateId_def sel_city_def sel_leadName_def
      sel_leadPhone_def sel_notes_def)

lemma form_no_invoke:
  "list_all (\<lambda>e. runtime_event e \<or> form_event e) es \<Longrightarrow> \<not> form_event (Invoke c) \<Longrightarrow> Invoke c \<notin> set es"
  by (auto simp: list_all_iff)

lemma form_appended:
  "list_all (\<lambda>e. runtime_event e \<or> form_event e) es \<Longrightarrow> appended f es = []"
  by (induction f es rule: appended.induct) auto

lemma not_probing_typed:
  "list_all (\<lambda>e. runtime_event e \<or> not_probing sel e) es \<Longrightarrow> typed sel es = []"
  by (induction sel es rule: typed.induct) auto

lemma not_probing_query:
  "list_all (\<lambda>e. runtime_event e \<or> not_probing sel e) es \<Longrightarrow> Invoke (Query sel) \<notin> set es"
  by (auto simp: list_all_iff)

lemma attempt_responses:
  "list_all (\<lambda>e. runtime_event e \<or> attempt_event env e) es \<Longrightarrow> responses es = []"
  by (induction es rule: responses.induct) auto

lemma extends_fillForm: "extends form_event s (snd (seq (fillForm env data src) s))"
proof (rule extends_seq)
  fix m s
  assume "m \<in> set (fillForm env data src)"
  then consider "m = invoke env ExecutablePath" | "m = invoke env Launch"
    | "m = invoke env NewPage" | "m = invoke env (Goto (ROCKETOUR_URL env) 30000)"
    | sel v where "m = fill env sel v" "sel \<noteq> sel_submit"
    | "m = fillNotes env data src"
    unfolding fillForm_def using selectors_distinct by fastforce
  then show "extends form_event s (snd (m s))"
  proof cases
    case 1 then show ?thesis by (simp add: extends_invoke)
  next
    case 2 then show ?thesis by (simp add: extends_invoke)
  next
    case 3 then show ?thesis by (simp add: extends_invoke)
  next
    case 4 then show ?thesis by (simp add: extends_invoke)
  next
    case 5 then show ?thesis by (simp add: extends_fill)
  next
    case 6 then show ?thesis by (simp add: extends_fillNotes selectors_distinct)
  qed
qed

lemma tryBlock_eq:
  "tryBlock env data src s =
     (case seq (fillForm env data src) s of
        (Inl e, s1) \<Rightarrow> (Inl e, s1)
      | (Inr u, s1) \<Rightarrow>
          (case submit env data s1 of
             (Inl e, s2) \<Rightarrow> (Inl e, s2)
           | (Inr u, s2) \<Rightarrow> invoke env Close s2))"
  by (auto simp: tryBlock_def seq_append split: prod.splits sum.splits)

lemma fillForm_steps:
  assumes "m \<in> set (fillForm env data src)"
  obtains c where "m = invoke env c" "form_event (Invoke c)"
  | sel v where "m = fill env sel v" "sel \<noteq> sel_submit" "converts data src \<Longrightarrow> succeeds v"
  | "m = fillNotes env data src"
  using assms selectors_distinct unfolding fillForm_def converts_def
  by (fastforce simp: succeeds_def)

lemma tryBlock_step:
  assumes "m \<in> set (fillForm env data src @ [submit env data, invoke env Close])"
  shows "extends (attempt_event env) s (snd (m s))"
proof -
  from assms consider "m \<in> set (fillForm env data src)" | "m = submit env data"
    | "m = invoke env Close" by auto
  then show ?thesis
  proof cases
    case 1
    then show ?thesis
      by (cases rule: fillForm_steps)
         (simp_all add: extends_invoke extends_fill extends_fillNotes)
  next
    case 2 then show ?thesis by (simp add: extends_submit)
  next
    case 3 then show ?thesis by (simp add: extends_invoke)
  qed
qed

lemma extends_tryBlock: "extends (attempt_event env) s (snd (tryBlock env data src s))"
  unfolding tryBlock_def by (rule extends_seq) (rule tryBlock_step)

lemma extends_background:
  "extends (attempt_event env) s (backgroundRocketourSubmission env data src ip s)"
proof -
  let ?s1 = "logConsole ''Rocketour background submission started.'' s"
  obtain r s' where t: "tryBlock env data src ?s1 = (r, s')" by fastforce
  have a: "extends (attempt_event env) s ?s1" by (simp add: extends_def)
  have b: "extends (attempt_event env) ?s1 s'"
    using extends_tryBlock [of env ?s1 data src] t by simp
  have c: "extends (attempt_event env) s'
             (logConsole m (appendJsonLine env (ROCKETOUR_LOG env) obj s'))" for m obj
    by (simp add: extends_def)
  show ?thesis
  proof (cases r)
    case (Inl e)
    with t show ?thesis
      using extends_trans [OF extends_trans [OF a b] c]
      by (simp add: backgroundRocketourSubmission_def)
  next
    case (Inr u)
    with t show ?thesis
      using extends_trans [OF a b] by (simp add: backgroundRocketourSubmission_def)
  qed
qed

subsection \<open>When no call rejects\<close>

lemma invoke_resolves: "rejects env c = None \<Longrightarrow> fst (invoke env c s) = Inr ()"
  by (simp add: invoke_def Let_def)

lemma fill_resolves:
  assumes "rejects env (Query sel) = None" and "succeeds v"
    and "\<And>t. rejects env (Type sel t) = None"
  shows "fst (fill env sel v s) = Inr ()"
  using assms
  by (cases v)
     (simp_all add: fill_def bind_def query_def return_def invoke_def Let_def succeeds_def)

lemma fillNotes_resolves:
  assumes "rejects env (Query sel_notes) = None" and "succeeds (notes_of data src)"
    and "\<And>t. rejects env (Type sel_notes t) = None"
  shows "fst (fillNotes env data src s) = Inr ()"
proof (cases "notes_of data src")
  case (Inl e)
  with assms(2) show ?thesis by (simp add: succeeds_def)
next
  case (Inr n)
  then show ?thesis
    using fill_resolves [of env sel_notes "Inr n" s] assms
    by (simp add: fillNotes_def succeeds_def)
qed

lemma seq_resolves:
  "(\<And>m s. m \<in> set ms \<Longrightarrow> fst (m s) = Inr ()) \<Longrightarrow> fst (seq ms s) = Inr ()"
proof (induction ms arbitrary: s)
  case Nil
  then show ?case by simp
next
  case (Cons m ms)
  have "fst (m s) = Inr ()" using Cons.prems by simp
  then obtain s' where "m s = (Inr (), s')" by (cases "m s") auto
  then show ?case using Cons by simp
qed

lemma fillForm_step_resolves:
  assumes "\<And>c. form_event (Invoke c) \<Longrightarrow> rejects env c = None"
    and "converts data src"
    and "m \<in> set (fillForm env data src)"
  shows "fst (m s) = Inr ()"
  using assms(3)
proof (cases rule: fillForm_steps)
  case 1 then show ?thesis using assms(1) by (simp add: invoke_resolves)
next
  case 2 then show ?thesis using assms(1,2) by (simp add: fill_resolves)
next
  case 3 then show ?thesis
    using assms(1,2) by (simp add: fillNotes_resolves converts_def selectors_distinct)
qed

lemma fillForm_resolves:
  assumes "\<And>c. form_event (Invoke c) \<Longrightarrow> rejects env c = None"
    and "converts data src"
  shows "fst (seq (fillForm env data src) s) = Inr ()"
  by (rule seq_resolves) (rule fillForm_step_resolves [OF assms])

subsection \<open>From the submit control on\<close>

lemmas after_form_defs = after_form_def finish_def submit_def waitForSuccess_def bind_def
  return_def query_def invoke_def Let_def

lemma background_split:
  "backgroundRocketourSubmission env data src ip s =
     (case seq (fillForm env data src) (logConsole ''Rocketour background submission started.'' s) of
        (Inl e, s') \<Rightarrow> finish env data (Inl e, s')
      | (Inr u, s') \<Rightarrow> after_form env data s')"
  by (simp add: backgroundRocketourSubmission_def tryBlock_eq after_form_def finish_def
      split: prod.splits sum.splits)

lemma after_form_starts:
  "\<exists>es. trace (after_form env data s) = trace s @ Invoke (Query sel_submit) # es"
  by (simp add: after_form_defs split: option.splits)

lemma after_form_no_submit:
  assumes "rejects env (Query sel_submit) = None" and "\<not> present env sel_submit"
  shows "logged (ROCKETOUR_LOG env) (since s (after_form env data s)) =
           JObj [(''error'', JStr ''no_submit_button_found''), (''payload'', data)]
           # (case rejects env Close of None \<Rightarrow> []
              | Some e \<Rightarrow> [JObj [(''error'', JStr (error_text e)), (''payload'', data)]])"
    and "Invoke Click \<notin> set (since s (after_form env data s))"
  using assms by (simp_all add: after_form_defs since_def logged_def split: option.splits)

lemma after_form_wait:
  assumes "Invoke (WaitForSelector sel_success 5000) \<in> set (since s (after_form env data s))"
  shows "logged (ROCKETOUR_LOG env) (since s (after_form env data s)) =
           JObj [(''status'',
                  JStr (case rejects env (WaitForSelector sel_success 5000) of
                          None \<Rightarrow> ''success_detected'' | Some e \<Rightarrow> ''submitted_no_green_box'')),
                 (''payload'', data)]
           # (case rejects env Close of None \<Rightarrow> []
              | Some e \<Rightarrow> [JObj [(''error'', JStr (error_text e)), (''payload'', data)]])"
    and "Invoke Click \<in> set (since s (after_form env data s))"
    and "Invoke Close \<in> set (since s (after_form env data s))"
  using assms by (simp_all add: after_form_defs since_def logged_def split: option.splits if_splits)

lemma after_form_reaches_wait:
  assumes "rejects env (Query sel_submit) = None" and "present env sel_submit"
    and "rejects env Click = None"
  shows "Invoke (WaitForSelector sel_success 5000) \<in> set (since s (after_form env data s))"
  using assms by (simp add: after_form_defs since_def split: option.splits)

subsection \<open>The shape of an attempt\<close>

lemma since_trans:
  "trace s2 = trace s @ es \<Longrightarrow> trace s3 = trace s2 @ es' \<Longrightarrow> since s s3 = es @ since s2 s3"
  by (simp add: since_def)

lemma finish_throw [simp]:
  "trace (finish env data (Inl e, s)) =
     trace s @ [AppendFile (ROCKETOUR_LOG env)
                  (JObj [(''ts'', JStr (clock env (length (trace s)))),
                         (''error'', JStr (error_text e)), (''payload'', data)]),
                ConsoleLog ''Rocketour background error:'']"
  by (simp add: finish_def)

lemma attempt_cases:
  obtains (failed) e s2 es where
      "attempt env data src ip s =
         ConsoleLog ''Rocketour background submission started.'' # es
         @ since s2 (finish env data (Inl e, s2))"
      "list_all (\<lambda>e. runtime_event e \<or> form_event e) es"
      "fst (seq (fillForm env data src)
              (logConsole ''Rocketour background submission started.'' s)) = Inl e"
  | (filled) s2 es where
      "attempt env data src ip s =
         ConsoleLog ''Rocketour background submission started.'' # es
         @ since s2 (after_form env data s2)"
      "list_all (\<lambda>e. runtime_event e \<or> form_event e) es"
      "fst (seq (fillForm env data src)
              (logConsole ''Rocketour background submission started.'' s)) = Inr ()"
proof -
  let ?s1 = "logConsole ''Rocketour background submission started.'' s"
  obtain r2 s2 where f: "seq (fillForm env data src) ?s1 = (r2, s2)"
    by fastforce
  from extends_fillForm [of ?s1 env data src] f obtain es
    where t2: "trace s2 = trace s @ ConsoleLog ''Rocketour background submission started.'' # es"
      and es: "list_all (\<lambda>e. runtime_event e \<or> form_event e) es"
    by (auto simp: extends_def)
  show thesis
  proof (cases r2)
    case (Inl e)
    have "attempt env data src ip s =
            (ConsoleLog ''Rocketour background submission started.'' # es)
            @ since s2 (finish env data (Inl e, s2))"
      unfolding attempt_def background_split f Inl
      by (simp add: since_trans [OF t2])
    with es f Inl failed show thesis by simp
  next
    case (Inr u)
    obtain es' where "trace (after_form env data s2) = trace s2 @ es'"
      using after_form_starts [of env data s2] by blast
    then have "attempt env data src ip s =
            (ConsoleLog ''Rocketour background submission started.'' # es)
            @ since s2 (after_form env data s2)"
      unfolding attempt_def background_split f Inr
      by (simp add: since_trans [OF t2])
    with es f Inr filled show thesis by simp
  qed
qed

lemma reaches_submit:
  assumes "\<And>c. form_event (Invoke c) \<Longrightarrow> rejects env c = None"
    and "converts data src"
  shows "Invoke (Query sel_submit) \<in> set (attempt env data src ip s)"
proof (cases rule: attempt_cases [of env data src ip s])
  case (failed e s2 es)
  then show ?thesis
    using fillForm_resolves [OF assms] by simp
next
  case (filled s2 es)
  obtain es' where "trace (after_form env data s2) = trace s2 @ Invoke (Query sel_submit) # es'"
    using after_form_starts [of env data s2] by blast
  with filled show ?thesis by (simp add: since_def)
qed


lemma reaches_wait:
  assumes "\<And>c. form_event (Invoke c) \<Longrightarrow> rejects env c = None"
    and "rejects env (Query sel_submit) = None" and "present env sel_submit"
    and "rejects env Click = None" and "converts data src"
  shows "Invoke (WaitForSelector sel_success 5000) \<in> set (attempt env data src ip s)"
proof (cases rule: attempt_cases [of env data src ip s])
  case (failed e s2 es)
  then show ?thesis
    using fillForm_resolves [OF assms(1,5)] by simp
next
  case (filled s2 es)
  then show ?thesis
    using after_form_reaches_wait [OF assms(2,3,4), where s = s2 and data = data] by simp
qed

lemma wait_outcome:
  assumes "Invoke (WaitForSelector sel_success 5000) \<in> set (attempt env data src ip s)"
  shows "logged (ROCKETOUR_LOG env) (attempt env data src ip s) =
           JObj [(''status'',
                  JStr (case rejects env (WaitForSelector sel_success 5000) of
                          None \<Rightarrow> ''success_detected'' | Some e \<Rightarrow> ''submitted_no_green_box'')),
                 (''payload'', data)]
           # (case rejects env Close of None \<Rightarrow> []
              | Some e \<Rightarrow> [JObj [(''error'', JStr (error_text e)), (''payload'', data)]])"
    and "Invoke Click \<in> set (attempt env data src ip s)"
    and "Invoke Close \<in> set (attempt env data src ip s)"
proof -
  have "logged (ROCKETOUR_LOG env) (attempt env data src ip s) =
           JObj [(''status'',
                  JStr (case rejects env (WaitForSelector sel_success 5000) of
                          None \<Rightarrow> ''success_detected'' | Some e \<Rightarrow> ''submitted_no_green_box'')),
                 (''payload'', data)]
           # (case rejects env Close of None \<Rightarrow> []
              | Some e \<Rightarrow> [JObj [(''error'', JStr (error_text e)), (''payload'', data)]])
        \<and> Invoke Click \<in> set (attempt env data src ip s)
        \<and> Invoke Close \<in> set (attempt env data src ip s)"
  proof (cases rule: attempt_cases [of env data src ip s])
    case (failed e s2 es)
    have "Invoke (WaitForSelector sel_success 5000) \<notin> set es"
      by (rule form_no_invoke [OF failed(2)]) simp
    with failed(1) assms show ?thesis by (simp add: since_def)
  next
    case (filled s2 es)
    have no: "Invoke (WaitForSelector sel_success 5000) \<notin> set es"
      by (rule form_no_invoke [OF filled(2)]) simp
    have lines: "appended (ROCKETOUR_LOG env) es = []"
      by (rule form_appended [OF filled(2)])
    from no filled(1) assms
    have w: "Invoke (WaitForSelector sel_success 5000) \<in> set (since s2 (after_form env data s2))"
      by simp
    from after_form_wait [OF w] lines filled(1) show ?thesis
      by (simp add: logged_def)
  qed
  then show "logged (ROCKETOUR_LOG env) (attempt env data src ip s) =
           JObj [(''status'',
                  JStr (case rejects env (WaitForSelector sel_success 5000) of
                          None \<Rightarrow> ''success_detected'' | Some e \<Rightarrow> ''submitted_no_green_box'')),
                 (''payload'', data)]
           # (case rejects env Close of None \<Rightarrow> []
              | Some e \<Rightarrow> [JObj [(''error'', JStr (error_text e)), (''payload'', data)]])"
    and "Invoke Click \<in> set (attempt env data src ip s)"
    and "Invoke Close \<in> set (attempt env data src ip s)"
    by simp_all
qed

lemma converts_lead: "converts lead ''form''"
  by (simp add: converts_def succeeds_def lead_def lead_text_def notes_of_def notesParts_def
      participants_part_def tours_part_def join_def and_then_def)

lemma no_indicator_reached:
  "Invoke (WaitForSelector sel_success 5000) \<in> set (attempt no_indicator_page lead ''form'' JUndefined init)"
  by (rule reaches_wait) (auto simp: no_indicator_page_def quiet_def converts_lead)

lemma navigation_failure:
  assumes "rejects env ExecutablePath = None" and "rejects env Launch = None"
    and "rejects env NewPage = None" and "rejects env (Goto (ROCKETOUR_URL env) 30000) = Some e"
  shows "Invoke Launch \<in> set (attempt env data src ip s)"
    and "Invoke Close \<notin> set (attempt env data src ip s)"
    and "logged (ROCKETOUR_LOG env) (attempt env data src ip s) =
           [JObj [(''error'', JStr (error_text e)), (''payload'', data)]]"
  using assms
  by (simp_all add: attempt_def since_def backgroundRocketourSubmission_def tryBlock_def
      fillForm_def invoke_def Let_def logged_def)


subsection \<open>One field of the form\<close>

lemma extends_rest:
  assumes post: "\<And>m s. m \<in> set post \<Longrightarrow> extends (not_probing sel) s (snd (m s))"
    and sel: "sel \<noteq> sel_submit"
  shows "extends (not_probing sel) s (finish env data (seq (post @ [submit env data, invoke env Close]) s))"
proof -
  have "extends (not_probing sel) s (snd (m s))"
    if "m \<in> set (post @ [submit env data, invoke env Close])" for m s
  proof -
    from that consider "m \<in> set post" | "m = submit env data" | "m = invoke env Close"
      by auto
    then show ?thesis
    proof cases
      case 1 then show ?thesis by (rule post)
    next
      case 2 then show ?thesis using sel by (simp add: extends_submit)
    next
      case 3 then show ?thesis by (simp add: extends_invoke)
    qed
  qed
  then have a: "extends (not_probing sel) s (snd (seq (post @ [submit env data, invoke env Close]) s))"
    by (rule extends_seq)
  obtain r s' where r: "seq (post @ [submit env data, invoke env Close]) s = (r, s')"
    by fastforce
  have "extends (not_probing sel) s' (finish env data (r, s'))"
    by (cases r) (simp_all add: finish_def extends_def)
  with a r show ?thesis by (auto intro: extends_trans)
qed

lemma field_fill:
  assumes shape: "fillForm env data src = pre @ fill env sel v # post"
    and pre: "\<And>m s. m \<in> set pre \<Longrightarrow> extends (not_probing sel) s (snd (m s))"
    and post: "\<And>m s. m \<in> set post \<Longrightarrow> extends (not_probing sel) s (snd (m s))"
    and sel: "sel \<noteq> sel_submit"
    and reach: "Invoke (Query sel) \<in> set (attempt env data src ip s)"
    and res: "rejects env (Query sel) = None"
  shows "typed sel (attempt env data src ip s) =
           (if present env sel then (case v of Inl e \<Rightarrow> [] | Inr t \<Rightarrow> [t]) else [])"
proof -
  let ?s1 = "logConsole ''Rocketour background submission started.'' s"
  let ?rest = "post @ [submit env data, invoke env Close]"
  have bg: "backgroundRocketourSubmission env data src ip s =
              finish env data (seq (pre @ fill env sel v # ?rest) ?s1)"
    by (simp add: backgroundRocketourSubmission_def tryBlock_def shape finish_def)
  obtain r1 s2 where f: "seq pre ?s1 = (r1, s2)" by fastforce
  from extends_seq [of pre "not_probing sel" ?s1] pre f obtain es1
    where t2: "trace s2 = trace s @ ConsoleLog ''Rocketour background submission started.'' # es1"
      and es1: "list_all (\<lambda>e. runtime_event e \<or> not_probing sel e) es1"
    by (auto simp: extends_def)
  have nq: "Invoke (Query sel) \<notin> set es1" by (rule not_probing_query [OF es1])
  have nt: "typed sel es1 = []" by (rule not_probing_typed [OF es1])
  have rest: "\<exists>es. trace (finish env data (seq ?rest s')) = trace s' @ es
                \<and> typed sel es = []" for s'
    using extends_rest [where post = post and sel = sel and s = s' and env = env and data = data]
      post sel
    by (auto simp: extends_def not_probing_typed)
  show ?thesis
  proof (cases r1)
    case (Inl e)
    with f t2 have "attempt env data src ip s =
        ConsoleLog ''Rocketour background submission started.'' # es1 @
        [AppendFile (ROCKETOUR_LOG env)
           (JObj [(''ts'', JStr (clock env (length (trace s2)))),
                  (''error'', JStr (error_text e)), (''payload'', data)]),
         ConsoleLog ''Rocketour background error:'']"
      by (simp add: attempt_def since_def bg seq_append)
    with reach nq show ?thesis by simp
  next
    case (Inr u)
    define s3 where "s3 = await env (emit (Invoke (Query sel)) s2)"
    have t3: "trace s3 = trace s2 @ Invoke (Query sel) # callbacks env (emit (Invoke (Query sel)) s2)"
      by (simp add: s3_def)
    show ?thesis
    proof (cases "present env sel")
      case False
      obtain es where es: "trace (finish env data (seq ?rest s3)) = trace s3 @ es" "typed sel es = []"
        using rest [of s3] by blast
      have "backgroundRocketourSubmission env data src ip s = finish env data (seq ?rest s3)"
        using f Inr False res
        by (simp add: bg seq_append fill_def bind_def query_def invoke_def return_def Let_def s3_def)
      with es t3 t2 nt False show ?thesis
        by (simp add: attempt_def since_def)
    next
      case True
      show ?thesis
      proof (cases v)
        case (Inl e)
        have "backgroundRocketourSubmission env data src ip s = finish env data (Inl e, s3)"
          using f Inr True res Inl
          by (simp add: bg seq_append fill_def bind_def query_def invoke_def return_def throw_def
              Let_def s3_def)
        with t3 t2 nt True Inl show ?thesis
          by (simp add: attempt_def since_def)
      next
        case (Inr t)
        note v = this
        define s4 where "s4 = await env (emit (Invoke (Type sel t)) s3)"
        have t4: "trace s4 = trace s3 @ Invoke (Type sel t) # callbacks env (emit (Invoke (Type sel t)) s3)"
          by (simp add: s4_def)
        show ?thesis
        proof (cases "rejects env (Type sel t)")
          case None
          obtain es where es: "trace (finish env data (seq ?rest s4)) = trace s4 @ es" "typed sel es = []"
            using rest [of s4] by blast
          have "backgroundRocketourSubmission env data src ip s = finish env data (seq ?rest s4)"
            using f \<open>r1 = Inr u\<close> True res None v
            by (simp add: bg seq_append fill_def bind_def query_def invoke_def return_def Let_def
                s3_def s4_def)
          with es t4 t3 t2 nt True v show ?thesis
            by (simp add: attempt_def since_def)
        next
          case (Some e)
          have "backgroundRocketourSubmission env data src ip s = finish env data (Inl e, s4)"
            using f \<open>r1 = Inr u\<close> True res Some v
            by (simp add: bg seq_append fill_def bind_def query_def invoke_def return_def Let_def
                s3_def s4_def)
          with t4 t3 t2 nt True v show ?thesis
            by (simp add: attempt_def since_def)
        qed
      qed
    qed
  qed
qed

lemma fill_starts:
  "\<exists>es. trace (snd (fill env sel v s)) = trace s @ Invoke (Query sel) # es"
  by (simp add: fill_def bind_def query_def invoke_def return_def throw_def Let_def
      split: option.splits sum.splits)

lemma reaches_probe:
  assumes shape: "fillForm env data src = pre @ fill env sel v # post"
    and resolves: "\<And>c. form_event (Invoke c) \<Longrightarrow> rejects env c = None"
    and converts: "converts data src"
  shows "Invoke (Query sel) \<in> set (attempt env data src ip s)"
proof -
  let ?s1 = "logConsole ''Rocketour background submission started.'' s"
  let ?rest = "post @ [submit env data, invoke env Close]"
  have bg: "backgroundRocketourSubmission env data src ip s =
              finish env data (seq (pre @ fill env sel v # ?rest) ?s1)"
    by (simp add: backgroundRocketourSubmission_def tryBlock_def shape finish_def)
  have step: "extends (attempt_event env) s' (snd (m s'))"
    if "m \<in> set pre \<or> m \<in> set ?rest" for m s'
    using that by (intro tryBlock_step [where data = data and src = src]) (auto simp: shape)
  have pre_ok: "fst (m s') = Inr ()" if "m \<in> set pre" for m s'
  proof (rule fillForm_step_resolves [OF resolves converts])
    show "m \<in> set (fillForm env data src)"
      using that unfolding shape by simp
  qed
  have "fst (seq pre ?s1) = Inr ()"
    by (rule seq_resolves) (rule pre_ok)
  then obtain s2 where f: "seq pre ?s1 = (Inr (), s2)"
    by (cases "seq pre ?s1") auto
  from extends_seq [of pre "attempt_event env" ?s1] step f obtain es1
    where t2: "trace s2 = trace s @ ConsoleLog ''Rocketour background submission started.'' # es1"
    by (auto simp: extends_def)
  obtain rf sf where ff: "fill env sel v s2 = (rf, sf)" by fastforce
  with fill_starts [of env sel v s2] obtain esf
    where tf: "trace sf = trace s2 @ Invoke (Query sel) # esf" by auto
  define r where "r = (case rf of Inl e \<Rightarrow> (Inl e, sf) | Inr u \<Rightarrow> seq ?rest sf)"
  have bg': "backgroundRocketourSubmission env data src ip s = finish env data r"
    by (simp add: bg seq_append f ff r_def split: sum.splits)
  have "\<exists>es. trace (snd (seq ?rest sf)) = trace sf @ es"
    using extends_seq [of ?rest "attempt_event env" sf] step by (auto simp: extends_def)
  then obtain es2 where r2: "trace (snd r) = trace sf @ es2"
    by (cases rf) (auto simp: r_def)
  obtain es3 where r3: "trace (finish env data r) = trace (snd r) @ es3"
    by (cases r, cases "fst r") (auto simp: finish_def)
  have "trace (backgroundRocketourSubmission env data src ip s) = trace sf @ es2 @ es3"
    by (simp add: bg' r3 r2)
  with tf t2 show ?thesis by (simp add: attempt_def since_def)
qed

lemma converts_nameless: "converts nameless ''form''"
  by (simp add: converts_def succeeds_def nameless_def lead_text_def notes_of_def notesParts_def
      participants_part_def tours_part_def join_def and_then_def)

lemma quiet_trace:
  "Invoke (Query sel_leadName) \<in> set (attempt quiet nameless ''form'' JUndefined init)"
  "Invoke (Query sel_leadPhone) \<in> set (attempt quiet nameless ''form'' JUndefined init)"
proof -
  have q: "rejects quiet c = None" for c by (simp add: quiet_def)
  show "Invoke (Query sel_leadName) \<in> set (attempt quiet nameless ''form'' JUndefined init)"
    by (rule reaches_probe [where pre = "take 6 (fillForm quiet nameless ''form'')"
          and post = "drop 7 (fillForm quiet nameless ''form'')"])
       (simp_all add: fillForm_def q converts_nameless)
  show "Invoke (Query sel_leadPhone) \<in> set (attempt quiet nameless ''form'' JUndefined init)"
    by (rule reaches_probe [where pre = "take 7 (fillForm quiet nameless ''form'')"
          and post = "drop 8 (fillForm quiet nameless ''form'')"])
       (simp_all add: fillForm_def q converts_nameless)
qed

subsection \<open>The shape of a submission\<close>

lemma fixed_texts_nonempty [simp]:
  "sent_by_form \<noteq> []" "sent_by_whatsapp \<noteq> []" "participants_label \<noteq> []"
  by (simp_all add: sent_by_form_def sent_by_whatsapp_def participants_label_def)

lemma log_paths_distinct [simp]:
  "GENERAL_LOG env \<noteq> WHATSAPP_LOG env" "GENERAL_LOG env \<noteq> SHEET_FAIL_LOG env"
  "GENERAL_LOG env \<noteq> ROCKETOUR_LOG env" "WHATSAPP_LOG env \<noteq> GENERAL_LOG env"
  "WHATSAPP_LOG env \<noteq> SHEET_FAIL_LOG env" "WHATSAPP_LOG env \<noteq> ROCKETOUR_LOG env"
  "SHEET_FAIL_LOG env \<noteq> GENERAL_LOG env" "SHEET_FAIL_LOG env \<noteq> WHATSAPP_LOG env"
  "SHEET_FAIL_LOG env \<noteq> ROCKETOUR_LOG env" "ROCKETOUR_LOG env \<noteq> GENERAL_LOG env"
  "ROCKETOUR_LOG env \<noteq> WHATSAPP_LOG env" "ROCKETOUR_LOG env \<noteq> SHEET_FAIL_LOG env"
  by (simp_all add: GENERAL_LOG_def WHATSAPP_LOG_def SHEET_FAIL_LOG_def ROCKETOUR_LOG_def
      path_join_def)

lemma callbacks_allowed [simp]: "list_all (\<lambda>e. runtime_event e \<or> Q e) (callbacks env s)"
  using callbacks_runtime [of env s] by (auto simp: list_all_iff)

lemma saveToSheets_trace:
  "\<exists>es. trace (snd (saveToSheets env payload s)) =
          trace s @ Fetch (SHEET_URL env) payload # callbacks env (emit (Fetch (SHEET_URL env) payload) s) @ es
        \<and> list_all (\<lambda>e. runtime_event e \<or> relay_event env e) es"
  by (simp add: saveToSheets_def Let_def split: settled.splits)

lemma saveToSheets_completion:
  "fst (saveToSheets env payload s) = (if relay_settles env then Completed else Suspended)"
  by (simp add: saveToSheets_def relay_settles_def Let_def split: settled.splits)

lemma background_trace:
  "\<exists>es. trace (backgroundRocketourSubmission env data src ip s) =
          trace s @ ConsoleLog ''Rocketour background submission started.''
          # Invoke ExecutablePath # es
        \<and> list_all (\<lambda>e. runtime_event e \<or> attempt_event env e) es"
proof -
  let ?s1 = "logConsole ''Rocketour background submission started.'' s"
  let ?rest = "tl (fillForm env data src) @ [submit env data, invoke env Close]"
  have bg: "backgroundRocketourSubmission env data src ip s =
              finish env data (seq (invoke env ExecutablePath # ?rest) ?s1)"
    by (simp add: backgroundRocketourSubmission_def tryBlock_def fillForm_def finish_def)
  have step: "extends (attempt_event env) s' (snd (m s'))" if "m \<in> set ?rest" for m s'
    using that by (intro tryBlock_step [where data = data and src = src])
      (auto simp: fillForm_def)
  obtain r1 s2 where i: "invoke env ExecutablePath ?s1 = (r1, s2)" by fastforce
  then have t2: "trace s2 = trace s @ ConsoleLog ''Rocketour background submission started.''
                   # Invoke ExecutablePath # callbacks env (emit (Invoke ExecutablePath) ?s1)"
    by (auto simp: invoke_def Let_def split: option.splits)
  define r where "r = (case r1 of Inl e \<Rightarrow> (Inl e, s2) | Inr u \<Rightarrow> seq ?rest s2)"
  have bg': "backgroundRocketourSubmission env data src ip s = finish env data r"
    by (simp add: bg i r_def split: sum.splits)
  have "extends (attempt_event env) s2 (snd (seq ?rest s2))"
    by (rule extends_seq) (rule step)
  then have "extends (attempt_event env) s2 (snd r)"
    by (cases r1) (auto simp: r_def)
  moreover have "extends (attempt_event env) (snd r) (finish env data r)"
    by (cases r, cases "fst r") (auto simp: finish_def extends_def)
  ultimately have "extends (attempt_event env) s2 (finish env data r)"
    by (rule extends_trans)
  then obtain es where "trace (finish env data r) = trace s2 @ es"
    "list_all (\<lambda>e. runtime_event e \<or> attempt_event env e) es"
    by (auto simp: extends_def)
  with t2 bg' show ?thesis by simp
qed

lemma submission_cases:
  obtains (thrown) e where
    "source_of env (payload_of req) = Inl e"
    "post_formnew_submit env req s = (Thrown e, s)"
    "submission env req s = []"
  | (suspended) src t1 t2 cbs es_relay where
    "source_of env (payload_of req) = Inr src"
    "\<not> relay_settles env"
    "fst (post_formnew_submit env req s) = Suspended"
    "submission env req s =
       AppendFile (GENERAL_LOG env)
         (JObj [(''ts'', JStr t1), (''ip'', ip_of req),
                (''source'', JStr src), (''payload'', payload_of req)])
       # (if src = ''whatsapp''
          then [AppendFile (WHATSAPP_LOG env)
                  (JObj [(''ts'', JStr t2), (''ip'', ip_of req), (''payload'', payload_of req)])]
          else [])
       @ Fetch (SHEET_URL env) (payload_of req) # cbs @ es_relay"
    "list_all runtime_event cbs"
    "list_all (\<lambda>e. runtime_event e \<or> relay_event env e) es_relay"
  | (completed) src t1 t2 cbs es_relay es_bg where
    "source_of env (payload_of req) = Inr src"
    "relay_settles env"
    "fst (post_formnew_submit env req s) = Completed"
    "submission env req s =
       AppendFile (GENERAL_LOG env)
         (JObj [(''ts'', JStr t1), (''ip'', ip_of req),
                (''source'', JStr src), (''payload'', payload_of req)])
       # (if src = ''whatsapp''
          then [AppendFile (WHATSAPP_LOG env)
                  (JObj [(''ts'', JStr t2), (''ip'', ip_of req), (''payload'', payload_of req)])]
          else [])
       @ Fetch (SHEET_URL env) (payload_of req) # cbs @ es_relay
       @ Respond 200 ack # ConsoleLog ''Rocketour background submission started.''
       # Invoke ExecutablePath # es_bg"
    "list_all runtime_event cbs"
    "list_all (\<lambda>e. runtime_event e \<or> relay_event env e) es_relay"
    "list_all (\<lambda>e. runtime_event e \<or> attempt_event env e) es_bg"
proof (cases "source_of env (payload_of req)")
  case (Inl e)
  then have "post_formnew_submit env req s = (Thrown e, s)"
    by (simp add: post_formnew_submit_def)
  moreover from this have "submission env req s = []"
    by (simp add: submission_def since_def)
  ultimately show thesis using Inl thrown by blast
next
  case (Inr src)
  let ?payload = "payload_of req"
  define s1 where "s1 = appendJsonLine env (GENERAL_LOG env)
      [(''ip'', ip_of req), (''source'', JStr src), (''payload'', ?payload)] s"
  define s2 where "s2 = (if src = ''whatsapp''
      then appendJsonLine env (WHATSAPP_LOG env) [(''ip'', ip_of req), (''payload'', ?payload)] s1
      else s1)"
  obtain c s3 where sv: "saveToSheets env ?payload s2 = (c, s3)" by fastforce
  have c: "c = (if relay_settles env then Completed else Suspended)"
    using saveToSheets_completion [of env ?payload s2] sv by simp
  obtain es_relay where r: "trace s3 =
        trace s2 @ Fetch (SHEET_URL env) ?payload
        # callbacks env (emit (Fetch (SHEET_URL env) ?payload) s2) @ es_relay"
      "list_all (\<lambda>e. runtime_event e \<or> relay_event env e) es_relay"
    using saveToSheets_trace [of env ?payload s2] sv by auto
  have t1: "trace s1 = trace s @
       [AppendFile (GENERAL_LOG env)
         (JObj [(''ts'', JStr (clock env (length (trace s)))), (''ip'', ip_of req),
                (''source'', JStr src), (''payload'', ?payload)])]"
    by (simp add: s1_def)
  have t2: "trace s2 = trace s1 @
       (if src = ''whatsapp''
        then [AppendFile (WHATSAPP_LOG env)
                (JObj [(''ts'', JStr (clock env (length (trace s1)))), (''ip'', ip_of req),
                       (''payload'', ?payload)])]
        else [])"
    by (simp add: s2_def)
  have cbs: "list_all runtime_event (callbacks env (emit (Fetch (SHEET_URL env) ?payload) s2))"
    by (rule callbacks_runtime)
  have p: "post_formnew_submit env req s =
             (case saveToSheets env ?payload s2 of
                (Completed, s3) \<Rightarrow>
                  (Completed,
                   backgroundRocketourSubmission env ?payload src (ip_of req)
                     (emit (Respond 200 ack) s3))
              | (stopped, s3) \<Rightarrow> (stopped, s3))"
    using Inr by (simp add: post_formnew_submit_def Let_def s1_def s2_def)
  show thesis
  proof (cases "relay_settles env")
    case False
    with c have h: "post_formnew_submit env req s = (Suspended, s3)"
      by (simp add: p sv)
    then have "submission env req s =
       AppendFile (GENERAL_LOG env)
         (JObj [(''ts'', JStr (clock env (length (trace s)))), (''ip'', ip_of req),
                (''source'', JStr src), (''payload'', ?payload)])
       # (if src = ''whatsapp''
          then [AppendFile (WHATSAPP_LOG env)
                  (JObj [(''ts'', JStr (clock env (length (trace s1)))), (''ip'', ip_of req),
                         (''payload'', ?payload)])]
          else [])
       @ Fetch (SHEET_URL env) ?payload
       # callbacks env (emit (Fetch (SHEET_URL env) ?payload) s2) @ es_relay"
      by (simp add: submission_def since_def r(1) t2 t1)
    with Inr False h cbs r(2) show thesis
      by (intro suspended [of src]) simp_all
  next
    case True
    define s4 where "s4 = emit (Respond 200 ack) s3"
    from True c have h: "post_formnew_submit env req s =
             (Completed, backgroundRocketourSubmission env ?payload src (ip_of req) s4)"
      by (simp add: p sv s4_def)
    obtain es_bg where b: "trace (backgroundRocketourSubmission env ?payload src (ip_of req) s4) =
          trace s4 @ ConsoleLog ''Rocketour background submission started.''
          # Invoke ExecutablePath # es_bg"
        "list_all (\<lambda>e. runtime_event e \<or> attempt_event env e) es_bg"
      using background_trace [of env ?payload src "ip_of req" s4] by blast
    have t4: "trace s4 = trace s3 @ [Respond 200 ack]"
      by (simp add: s4_def)
    have "submission env req s =
       AppendFile (GENERAL_LOG env)
         (JObj [(''ts'', JStr (clock env (length (trace s)))), (''ip'', ip_of req),
                (''source'', JStr src), (''payload'', ?payload)])
       # (if src = ''whatsapp''
          then [AppendFile (WHATSAPP_LOG env)
                  (JObj [(''ts'', JStr (clock env (length (trace s1)))), (''ip'', ip_of req),
                         (''payload'', ?payload)])]
          else [])
       @ Fetch (SHEET_URL env) ?payload
       # callbacks env (emit (Fetch (SHEET_URL env) ?payload) s2) @ es_relay
       @ Respond 200 ack # ConsoleLog ''Rocketour background submission started.''
       # Invoke ExecutablePath # es_bg"
      by (simp add: submission_def since_def h b(1) t4 r(1) t2 t1)
    with Inr True h cbs r(2) b(2) show thesis
      by (intro completed [of src]) simp_all
  qed
qed

subsection \<open>Logs, replies and stages of the parts\<close>

lemma relay_appended:
  "list_all (\<lambda>e. runtime_event e \<or> relay_event env e) es \<Longrightarrow> f \<noteq> SHEET_FAIL_LOG env \<Longrightarrow>
     appended f es = []"
  by (induction f es rule: appended.induct) auto

lemma attempt_appended:
  "list_all (\<lambda>e. runtime_event e \<or> attempt_event env e) es \<Longrightarrow> f \<noteq> ROCKETOUR_LOG env \<Longrightarrow>
     appended f es = []"
  by (induction f es rule: appended.induct) auto

lemma relay_responses:
  "list_all (\<lambda>e. runtime_event e \<or> relay_event env e) es \<Longrightarrow> responses es = []"
  by (induction es rule: responses.induct) auto

lemma stages_append [simp]: "stages env (xs @ ys) = stages env xs @ stages env ys"
  by (induction xs) (auto split: option.splits)

lemma runtime_stages: "list_all runtime_event es \<Longrightarrow> stages env es = []"
  by (induction es) (auto elim: runtime_event.elims)

lemma relay_stages:
  "list_all (\<lambda>e. runtime_event e \<or> relay_event env e) es \<Longrightarrow>
     \<exists>n. stages env es = replicate n Relay"
proof (induction es)
  case Nil
  then show ?case by simp
next
  case (Cons e es)
  then obtain n where n: "stages env es = replicate n Relay" by auto
  from Cons.prems have "stage_of env e = None \<or> stage_of env e = Some Relay"
    by (cases e) auto
  then show ?case
  proof
    assume "stage_of env e = None"
    with n show ?thesis by auto
  next
    assume "stage_of env e = Some Relay"
    with n have "stages env (e # es) = replicate (Suc n) Relay" by simp
    then show ?thesis by blast
  qed
qed

lemma attempt_stages:
  "list_all (\<lambda>e. runtime_event e \<or> attempt_event env e) es \<Longrightarrow>
     \<exists>n. stages env es = replicate n Replication"
proof (induction es)
  case Nil
  then show ?case by simp
next
  case (Cons e es)
  then obtain n where n: "stages env es = replicate n Replication" by auto
  from Cons.prems have "stage_of env e = None \<or> stage_of env e = Some Replication"
    by (cases e) auto
  then show ?case
  proof
    assume "stage_of env e = None"
    with n show ?thesis by auto
  next
    assume "stage_of env e = Some Replication"
    with n have "stages env (e # es) = replicate (Suc n) Replication" by simp
    then show ?thesis by blast
  qed
qed

lemma remdups_adj_run: "remdups_adj (x # replicate n x @ ys) = remdups_adj (x # ys)"
  by (induction n) auto

lemma remdups_adj_last_run: "remdups_adj (x # replicate n x) = [x]"
  using remdups_adj_run [of x n "[]"] by simp

lemma takeWhile_runtime:
  "takeWhile (\<lambda>e. \<not> is_fetch e) (Fetch url b # es) = []"
  by simp

lemma runtime_no_console: "list_all runtime_event es \<Longrightarrow> ConsoleLog m \<notin> set es"
  by (auto simp: list_all_iff)

lemma relay_no_start:
  "list_all (\<lambda>e. runtime_event e \<or> relay_event env e) es \<Longrightarrow>
     ConsoleLog ''Rocketour background submission started.'' \<notin> set es"
  by (auto simp: list_all_iff)

lemma relay_no_invoke:
  "list_all (\<lambda>e. runtime_event e \<or> relay_event env e) es \<Longrightarrow> Invoke c \<notin> set es"
  by (auto simp: list_all_iff)

lemma handler_completion:
  "fst (post_formnew_submit env req s) =
     (case source_of env (payload_of req) of
        Inl e \<Rightarrow> Thrown e
      | Inr src \<Rightarrow> if relay_settles env then Completed else Suspended)"
  by (cases rule: submission_cases [of env req s]) simp_all

lemma stage_sequence:
  "remdups_adj (stages env (submission env req s)) =
     (case source_of env (payload_of req) of
        Inl e \<Rightarrow> []
      | Inr src \<Rightarrow>
          if relay_settles env then [Capture, Relay, Reply, Replication] else [Capture, Relay])"
proof (cases rule: submission_cases [of env req s])
  case (thrown e)
  then show ?thesis by simp
next
  case (suspended src t1 t2 cbs es_relay)
  obtain n where n: "stages env es_relay = replicate n Relay"
    using relay_stages [OF suspended(6)] by blast
  have c: "stages env cbs = []" by (rule runtime_stages [OF suspended(5)])
  have "stages env (submission env req s) =
          Capture # replicate (if src = ''whatsapp'' then 1 else 0) Capture
          @ Relay # replicate n Relay"
    by (simp add: suspended(4) n c)
  then show ?thesis
    using suspended(1,2) by (simp add: remdups_adj_run remdups_adj_last_run)
next
  case (completed src t1 t2 cbs es_relay es_bg)
  obtain n where n: "stages env es_relay = replicate n Relay"
    using relay_stages [OF completed(6)] by blast
  obtain m where m: "stages env es_bg = replicate m Replication"
    using attempt_stages [OF completed(7)] by blast
  have c: "stages env cbs = []" by (rule runtime_stages [OF completed(5)])
  have "stages env (submission env req s) =
          Capture # replicate (if src = ''whatsapp'' then 1 else 0) Capture
          @ Relay # replicate n Relay @ Reply # Replication # Replication # replicate m Replication"
    by (simp add: completed(4) n m c)
  then show ?thesis
    using completed(1,2) by (simp add: remdups_adj_run remdups_adj_last_run)
qed

lemma not_completed_before_relay:
  "\<not> completed_before_relay f (submission env req s)"
  by (cases rule: submission_cases [of env req s]) (simp_all add: completed_before_relay_def)

subsection \<open>The concrete submissions\<close>

lemma toLowerCase_form [simp]: "toLowerCase env ''form'' = ''form''"
  by (simp add: toLowerCase_def ascii_def lower_char_def)

lemma source_of_string:
  "get payload ''source'' = JStr x \<Longrightarrow>
     source_of env payload = Inr (if x = [] then ''form'' else toLowerCase env x)"
  by (simp add: source_of_def js_or_def and_then_def)

lemma source_of_absent:
  "get payload ''source'' = JUndefined \<Longrightarrow> source_of env payload = Inr (toLowerCase env ''form'')"
  by (simp add: source_of_def js_or_def and_then_def)

lemma lower_WhatsApp: "map lower_char ''WhatsApp'' = ''whatsapp''"
  by code_simp

lemma toLowerCase_WhatsApp: "toLowerCase env ''WhatsApp'' = ''whatsapp''"
  using lower_WhatsApp by (simp add: toLowerCase_def ascii_def)

lemma ip_of_requests:
  "ip_of form_request = JStr ''203.0.113.7''" "ip_of whatsapp_request = JStr ''203.0.113.7''"
  "ip_of shadowing_request = JStr ''203.0.113.7''"
  by (simp_all add: ip_of_def form_request_def whatsapp_request_def shadowing_request_def js_or_def)

lemma payload_of_requests:
  "payload_of form_request = lead"
  "payload_of whatsapp_request =
     JObj [(''source'', JStr ''WhatsApp''), (''name'', JStr ''Dana''),
           (''phone'', JStr ''0501234567'')]"
  "payload_of shadowing_request =
     JObj [(''name'', JStr ''Dana''), (''phone'', JStr ''0501234567''),
           (''source'', JObj [(''toString'', JStr ''x'')])]"
  by (simp_all add: payload_of_def form_request_def whatsapp_request_def shadowing_request_def
      js_or_def lead_def)

lemma source_of_requests:
  "source_of env (payload_of form_request) = Inr ''form''"
  "source_of env (payload_of whatsapp_request) = Inr ''whatsapp''"
  "source_of env (payload_of shadowing_request) = Inl not_a_function"
  by (simp_all add: payload_of_requests lead_def source_of_absent source_of_string
      toLowerCase_WhatsApp)
     (simp add: source_of_def js_or_def and_then_def)

lemma quiet_completion:
  "list_ex (completion_of (GENERAL_LOG quiet)) (submission quiet form_request init)"
proof -
  let ?payload = "payload_of form_request"
  define s1 where "s1 = appendJsonLine quiet (GENERAL_LOG quiet)
      [(''ip'', ip_of form_request), (''source'', JStr ''form''), (''payload'', ?payload)] init"
  obtain c s3 where sv: "saveToSheets quiet ?payload s1 = (c, s3)" by fastforce
  have "relay_settles quiet" by (simp add: relay_settles_def quiet_def resp_ok_def)
  then have c: "c = Completed"
    using saveToSheets_completion [of quiet ?payload s1] sv by simp
  define s4 where "s4 = emit (Respond 200 ack) s3"
  have h: "snd (post_formnew_submit quiet form_request init) =
             backgroundRocketourSubmission quiet ?payload ''form'' (ip_of form_request) s4"
    using sv c by (simp add: post_formnew_submit_def Let_def s1_def s4_def source_of_requests)
  obtain es_relay where r: "trace s3 =
        trace s1 @ Fetch (SHEET_URL quiet) ?payload
        # callbacks quiet (emit (Fetch (SHEET_URL quiet) ?payload) s1) @ es_relay"
    using saveToSheets_trace [of quiet ?payload s1] sv by auto
  obtain es_bg where b: "trace (backgroundRocketourSubmission quiet ?payload ''form'' (ip_of form_request) s4) =
        trace s4 @ ConsoleLog ''Rocketour background submission started.''
        # Invoke ExecutablePath # es_bg"
    using background_trace [of quiet ?payload "''form''" "ip_of form_request" s4] by blast
  have c: "callbacks quiet (emit (Fetch (SHEET_URL quiet) ?payload) s1) =
             [AppendCallback (GENERAL_LOG quiet)
                (JObj [(''ts'', JStr ''2024-05-01T10:00:00.000Z''), (''ip'', ip_of form_request),
                       (''source'', JStr ''form''), (''payload'', ?payload)]) None]"
    by (simp add: callbacks_def due_def callback_def s1_def appendJsonLine_def emit_def init_def
        quiet_def Let_def)
  have t4: "trace s4 = trace s3 @ [Respond 200 ack]"
    by (simp add: s4_def)
  have t1: "trace s1 =
      [AppendFile (GENERAL_LOG quiet)
         (JObj [(''ts'', JStr (clock quiet 0)), (''ip'', ip_of form_request),
                (''source'', JStr ''form''), (''payload'', ?payload)])]"
    by (simp add: s1_def init_def)
  have "trace init = []" by (simp add: init_def)
  then show ?thesis
    by (simp add: submission_def since_def h b t4 r c t1 list_ex_iff)
qed

subsection \<open>What a submission logs and answers\<close>

lemma relay_settles_worlds:
  "relay_settles quiet" "relay_settles relay_500" "relay_settles relay_down"
  "\<not> relay_settles relay_silent"
  by (simp_all add: relay_settles_def quiet_def relay_500_def relay_down_def relay_silent_def
      resp_ok_def)

lemma responses_of_submission:
  "responses (submission env req s) =
     (case source_of env (payload_of req) of
        Inl e \<Rightarrow> []
      | Inr src \<Rightarrow> if relay_settles env then [(200, ack)] else [])"
  by (cases rule: submission_cases [of env req s])
     (simp_all add: relay_responses attempt_responses runtime_responses)

lemma general_log_of_submission:
  "logged (GENERAL_LOG env) (submission env req s) =
     (case source_of env (payload_of req) of
        Inl e \<Rightarrow> []
      | Inr src \<Rightarrow>
          [JObj [(''ip'', ip_of req), (''source'', JStr src), (''payload'', payload_of req)]])"
  by (cases rule: submission_cases [of env req s])
     (simp_all add: logged_def relay_appended attempt_appended runtime_appended)

lemma whatsapp_log_of_submission:
  "logged (WHATSAPP_LOG env) (submission env req s) =
     (case source_of env (payload_of req) of
        Inl e \<Rightarrow> []
      | Inr src \<Rightarrow>
          if src = ''whatsapp''
          then [JObj [(''ip'', ip_of req), (''payload'', payload_of req)]] else [])"
  by (cases rule: submission_cases [of env req s])
     (simp_all add: logged_def relay_appended attempt_appended runtime_appended)

lemma started_of_submission:
  "replication_started (submission env req s) \<longleftrightarrow>
     succeeds (source_of env (payload_of req)) \<and> relay_settles env"
proof (cases rule: submission_cases [of env req s])
  case (thrown e)
  then show ?thesis by (simp add: replication_started_def succeeds_def)
next
  case (suspended src t1 t2 cbs es_relay)
  have "Invoke ExecutablePath \<notin> set cbs" "Invoke ExecutablePath \<notin> set es_relay"
    using suspended(5,6) by (simp_all add: runtime_no_invoke relay_no_invoke)
  with suspended(2,4) show ?thesis by (simp add: replication_started_def)
next
  case (completed src t1 t2 cbs es_relay es_bg)
  then show ?thesis by (simp add: replication_started_def succeeds_def)
qed

section \<open>The claims\<close>

text \<open>
  C1, as the claim states it: the replicator would run only for a source that resolves to
  \<open>form\<close>, never for \<open>whatsapp\<close>. The handler calls it for a WhatsApp submission too.
\<close>

theorem replicator_runs_for_whatsapp:
  "source_of quiet (payload_of whatsapp_request) = Inr ''whatsapp''
   \<and> source_of quiet (payload_of whatsapp_request) \<noteq> Inr ''form''
   \<and> replication_started (submission quiet whatsapp_request init)"
  using started_of_submission [of quiet whatsapp_request init]
  by (simp add: source_of_requests relay_settles_worlds succeeds_def)

text \<open>
  C1, amended. The replicator is started (the background function is entered and makes
  its first browser call) for exactly the submissions that get that far in the handler:
  those whose source converts to a string, whatever it resolves to, and whose relay
  call settles. A source whose conversion throws ends the handler before anything is
  done, and a relay call that never settles keeps it from going on.
\<close>

theorem replicator_runs_whatever_the_source:
  "replication_started (submission env req s) \<longleftrightarrow>
     succeeds (source_of env (payload_of req)) \<and> relay_settles env"
  by (rule started_of_submission)

text \<open>
  C2, as the claim states it: the append to the local log would have completed when the
  relay POST is made. \<open>fs.appendFile\<close> is not awaited: when \<open>fetch\<close> is called the
  callback of the append has not run; in this world it runs afterwards.
\<close>

theorem capture_incomplete_at_relay:
  "\<not> completed_before_relay (GENERAL_LOG quiet) (submission quiet form_request init)
   \<and> list_ex is_fetch (submission quiet form_request init)
   \<and> list_ex (completion_of (GENERAL_LOG quiet)) (submission quiet form_request init)"
proof -
  have "list_ex is_fetch (submission quiet form_request init)"
    by (cases rule: submission_cases [of quiet form_request init])
       (simp_all add: source_of_requests)
  with not_completed_before_relay [of "GENERAL_LOG quiet" quiet form_request init]
    quiet_completion
  show ?thesis by simp
qed

text \<open>
  C2, amended. The effects of a submission come in stages, in this order and never going
  back: the appends to the general and WhatsApp logs are handed to the file system; then
  the relay call is made (and its failure, if any, logged); then the reply is sent; then
  the replication starts. A submission whose source cannot be converted goes through no
  stage; one whose relay call never settles stops in the second; every other submission
  goes through all four.
\<close>

theorem stage_order:
  "remdups_adj (stages env (submission env req s)) =
     (case source_of env (payload_of req) of
        Inl e \<Rightarrow> []
      | Inr src \<Rightarrow>
          if relay_settles env then [Capture, Relay, Reply, Replication] else [Capture, Relay])"
  by (rule stage_sequence)

text \<open>
  C3. A navigation that times out after the browser was launched: the \<open>catch\<close> clause
  records the error, and \<open>browser.close()\<close> is never called.
\<close>

theorem session_left_open:
  "rejects unreachable_page Launch = None
   \<and> Invoke Launch \<in> set (attempt unreachable_page lead ''form'' JUndefined init)
   \<and> Invoke Close \<notin> set (attempt unreachable_page lead ''form'' JUndefined init)
   \<and> logged (ROCKETOUR_LOG unreachable_page) (attempt unreachable_page lead ''form'' JUndefined init) =
       [JObj [(''error'', JStr ''Navigation timeout of 30000 ms exceeded''), (''payload'', lead)]]"
proof -
  have "rejects unreachable_page ExecutablePath = None" "rejects unreachable_page Launch = None"
    "rejects unreachable_page NewPage = None"
    "rejects unreachable_page (Goto (ROCKETOUR_URL unreachable_page) 30000) = Some navigation_timeout"
    by (simp_all add: unreachable_page_def quiet_def)
  from navigation_failure [OF this] this(2) show ?thesis
    by (simp add: navigation_timeout_def error_text_def)
qed

text \<open>
  C4. A spreadsheet endpoint that accepts the request and never answers: the
  \<open>fetch\<close> of the handler carries no timeout, the handler stays suspended at its
  \<open>await\<close>, and the caller, whose lead is in the general log, gets no reply.
\<close>

theorem no_reply_while_relay_silent:
  "fetch_result relay_silent = Unsettled
   \<and> logged (GENERAL_LOG relay_silent) (submission relay_silent form_request init) =
       [JObj [(''ip'', JStr ''203.0.113.7''), (''source'', JStr ''form''), (''payload'', lead)]]
   \<and> fst (post_formnew_submit relay_silent form_request init) = Suspended
   \<and> responses (submission relay_silent form_request init) = []"
proof -
  have f: "fetch_result relay_silent = Unsettled"
    by (simp add: relay_silent_def)
  have src: "source_of relay_silent (payload_of form_request) = Inr ''form''"
    by (rule source_of_requests)
  from responses_of_submission [of relay_silent form_request init]
    general_log_of_submission [of relay_silent form_request init]
    handler_completion [of relay_silent form_request init] f
  show ?thesis
    unfolding src by (simp add: relay_settles_worlds ip_of_requests payload_of_requests)
qed

text \<open>
  C5. A JSON body whose \<open>source\<close> is an object with a property named \<open>toString\<close>:
  \<open>(payload.source || "form").toString()\<close> throws before the first append, so the
  handler ends with nothing handed to the general log.
\<close>

theorem capture_skipped_when_source_throws:
  "get (payload_of shadowing_request) ''source'' = JObj [(''toString'', JStr ''x'')]
   \<and> post_formnew_submit quiet shadowing_request init = (Thrown not_a_function, init)
   \<and> appended (GENERAL_LOG quiet) (submission quiet shadowing_request init) = []
   \<and> logged (GENERAL_LOG quiet) (submission quiet shadowing_request init) = []"
proof -
  have "get (payload_of shadowing_request) ''source'' = JObj [(''toString'', JStr ''x'')]"
    by (simp add: payload_of_requests)
  moreover have "post_formnew_submit quiet shadowing_request init = (Thrown not_a_function, init)"
    by (simp add: post_formnew_submit_def source_of_requests)
  ultimately show ?thesis
    using general_log_of_submission [of quiet shadowing_request init]
    by (simp add: source_of_requests logged_def)
qed

text \<open>
  C6. A submission whose source resolves to \<open>whatsapp\<close> (the source field, converted to
  a string and lowercased, an absent one counting as \<open>form\<close>) appends exactly one line to
  the WhatsApp log; any other submission appends none.
\<close>

theorem whatsapp_log_entries:
  "logged (WHATSAPP_LOG env) (submission env req s) =
     (if source_of env (payload_of req) = Inr ''whatsapp''
      then [JObj [(''ip'', ip_of req), (''payload'', payload_of req)]]
      else [])"
  using whatsapp_log_of_submission [of env req s]
  by (simp split: sum.splits)

theorem whatsapp_log_entries_witness:
  "get (req_body whatsapp_request) ''source'' = JStr ''WhatsApp''
   \<and> logged (WHATSAPP_LOG quiet) (submission quiet whatsapp_request init) =
       [JObj [(''ip'', JStr ''203.0.113.7''), (''payload'', req_body whatsapp_request)]]
   \<and> get (req_body form_request) ''source'' = JUndefined
   \<and> logged (WHATSAPP_LOG quiet) (submission quiet form_request init) = []"
proof -
  have b: "req_body whatsapp_request =
             JObj [(''source'', JStr ''WhatsApp''), (''name'', JStr ''Dana''),
                   (''phone'', JStr ''0501234567'')]"
    "get (req_body whatsapp_request) ''source'' = JStr ''WhatsApp''"
    "get (req_body form_request) ''source'' = JUndefined"
    by (simp_all add: whatsapp_request_def form_request_def lead_def)
  have src: "source_of quiet (payload_of whatsapp_request) = Inr ''whatsapp''"
    "source_of quiet (payload_of form_request) = Inr ''form''"
    by (rule source_of_requests)+
  from whatsapp_log_entries [of quiet whatsapp_request init]
    whatsapp_log_entries [of quiet form_request init] b
  show ?thesis
    unfolding src by (simp add: ip_of_requests payload_of_requests)
qed

text \<open>
  C7. An attempt that looks for the submit control and finds none records the
  \<open>no_submit_button_found\<close> error line in the outcome log, records no line with a status
  (neither the success nor the inconclusive one), and never clicks.
\<close>

theorem no_submit_control:
  assumes "Invoke (Query sel_submit) \<in> set (attempt env data src ip s)"
    and "rejects env (Query sel_submit) = None"
    and "\<not> present env sel_submit"
  shows "JObj [(''error'', JStr ''no_submit_button_found''), (''payload'', data)]
           \<in> set (logged (ROCKETOUR_LOG env) (attempt env data src ip s))
       \<and> filter has_status (logged (ROCKETOUR_LOG env) (attempt env data src ip s)) = []
       \<and> Invoke Click \<notin> set (attempt env data src ip s)"
proof (cases rule: attempt_cases [of env data src ip s])
  case (failed e s2 es)
  have "Invoke (Query sel_submit) \<notin> set es"
    by (rule form_no_invoke [OF failed(2)]) simp
  with failed(1) assms(1) show ?thesis
    by (simp add: since_def)
next
  case (filled s2 es)
  have "Invoke Click \<notin> set es"
    by (rule form_no_invoke [OF filled(2)]) simp
  moreover have "appended (ROCKETOUR_LOG env) es = []"
    by (rule form_appended [OF filled(2)])
  ultimately show ?thesis
    using after_form_no_submit [OF assms(2,3), where s = s2 and data = data] filled(1)
    by (simp add: logged_def has_status_def split: option.splits)
qed

theorem no_submit_control_witness:
  "Invoke (Query sel_submit) \<in> set (attempt no_submit_page lead ''form'' JUndefined init)
   \<and> rejects no_submit_page (Query sel_submit) = None
   \<and> \<not> present no_submit_page sel_submit
   \<and> JObj [(''error'', JStr ''no_submit_button_found''), (''payload'', lead)]
         \<in> set (logged (ROCKETOUR_LOG no_submit_page)
                  (attempt no_submit_page lead ''form'' JUndefined init))
   \<and> filter has_status (logged (ROCKETOUR_LOG no_submit_page)
                  (attempt no_submit_page lead ''form'' JUndefined init)) = []
   \<and> Invoke Click \<notin> set (attempt no_submit_page lead ''form'' JUndefined init)"
proof -
  have reached: "Invoke (Query sel_submit) \<in> set (attempt no_submit_page lead ''form'' JUndefined init)"
    by (rule reaches_submit) (simp_all add: no_submit_page_def quiet_def converts_lead)
  have resolved: "rejects no_submit_page (Query sel_submit) = None"
    by (simp add: no_submit_page_def quiet_def)
  have absent: "\<not> present no_submit_page sel_submit"
    by (simp add: no_submit_page_def quiet_def)
  from no_submit_control [OF reached resolved absent] reached resolved absent
  show ?thesis by blast
qed

text \<open>
  C8, as the claim states it: after a click whose success box never shows, the recorded
  outcome would be \<open>submitted_no_indicator\<close>. The code records another label.
\<close>

theorem recorded_label_counterexample:
  "Invoke Click \<in> set (attempt no_indicator_page lead ''form'' JUndefined init)
   \<and> rejects no_indicator_page (WaitForSelector sel_success 5000) = Some wait_timeout
   \<and> map (\<lambda>l. get l ''status'')
        (logged (ROCKETOUR_LOG no_indicator_page)
           (attempt no_indicator_page lead ''form'' JUndefined init))
      = [JStr ''submitted_no_green_box'']
   \<and> JStr ''submitted_no_indicator''
         \<notin> set (map (\<lambda>l. get l ''status'')
                  (logged (ROCKETOUR_LOG no_indicator_page)
                     (attempt no_indicator_page lead ''form'' JUndefined init)))"
proof -
  have r: "rejects no_indicator_page (WaitForSelector sel_success 5000) = Some wait_timeout"
    and c: "rejects no_indicator_page Close = None"
    by (simp_all add: no_indicator_page_def quiet_def)
  from wait_outcome [OF no_indicator_reached] r c show ?thesis by simp
qed

text \<open>
  C8, amended. An attempt that gets to wait for the success box, and whose wait is
  rejected, records the status line \<open>submitted_no_green_box\<close> and goes on to close the
  browser as on the success path; the outcome log holds no error line for it, the only
  possible further line being the error of a failing \<open>browser.close()\<close>.
\<close>

theorem no_indicator_outcome:
  assumes "Invoke (WaitForSelector sel_success 5000) \<in> set (attempt env data src ip s)"
    and "rejects env (WaitForSelector sel_success 5000) = Some e"
  shows "logged (ROCKETOUR_LOG env) (attempt env data src ip s) =
           JObj [(''status'', JStr ''submitted_no_green_box''), (''payload'', data)]
           # (case rejects env Close of None \<Rightarrow> []
              | Some e' \<Rightarrow> [JObj [(''error'', JStr (error_text e')), (''payload'', data)]])
       \<and> Invoke Close \<in> set (attempt env data src ip s)"
  using wait_outcome [OF assms(1)] assms(2) by simp

theorem no_indicator_outcome_witness:
  "Invoke (WaitForSelector sel_success 5000) \<in> set (attempt no_indicator_page lead ''form'' JUndefined init)
   \<and> rejects no_indicator_page (WaitForSelector sel_success 5000) = Some wait_timeout
   \<and> logged (ROCKETOUR_LOG no_indicator_page) (attempt no_indicator_page lead ''form'' JUndefined init) =
       [JObj [(''status'', JStr ''submitted_no_green_box''), (''payload'', lead)]]
   \<and> Invoke Close \<in> set (attempt no_indicator_page lead ''form'' JUndefined init)"
proof -
  have r: "rejects no_indicator_page (WaitForSelector sel_success 5000) = Some wait_timeout"
    and c: "rejects no_indicator_page Close = None"
    by (simp_all add: no_indicator_page_def quiet_def)
  from no_indicator_outcome [OF no_indicator_reached r] no_indicator_reached r c
  show ?thesis by simp
qed

text \<open>
  C9. Two submissions that agree on every field but \<open>tours\<close>, one giving a list and the
  other the string that joins that list with a comma and a space, get the same notes.
\<close>

theorem tours_list_or_string:
  assumes "\<And>k. k \<noteq> ''tours'' \<Longrightarrow> get a k = get b k"
    and "get a ''tours'' = JArr names"
    and "join '', '' names = Inr joined"
    and "get b ''tours'' = JStr joined"
  shows "notes_of a src = notes_of b src"
  using assms
  by (simp add: notes_of_def notesParts_def tours_part_def and_then_def split: sum.splits)

theorem tours_list_or_string_witness:
  "get lead ''tours'' = JArr [JStr ''Colosseum'', JStr ''Vatican'']
   \<and> join '', '' [JStr ''Colosseum'', JStr ''Vatican''] = Inr ''Colosseum, Vatican''
   \<and> get lead_flat ''tours'' = JStr ''Colosseum, Vatican''
   \<and> get lead ''npart'' = get lead_flat ''npart''
   \<and> notes_of lead ''form'' = notes_of lead_flat ''form''
   \<and> notes_of lead_flat ''form'' =
       Inr (participants_label @ ''4'' @ [CHR 0x0A] @ ''Colosseum, Vatican'' @ [CHR 0x0A]
            @ sent_by_form)"
proof -
  have others: "get lead k = get lead_flat k" if "k \<noteq> ''tours''" for k
    using that by (simp add: lead_def lead_flat_def)
  have a: "get lead ''tours'' = JArr [JStr ''Colosseum'', JStr ''Vatican'']"
    by (simp add: lead_def)
  have j: "join '', '' [JStr ''Colosseum'', JStr ''Vatican''] = Inr ''Colosseum, Vatican''"
    by (simp add: join_def and_then_def)
  have b: "get lead_flat ''tours'' = JStr ''Colosseum, Vatican''"
    by (simp add: lead_flat_def)
  have n: "notes_of lead_flat ''form'' =
       Inr (participants_label @ ''4'' @ [CHR 0x0A] @ ''Colosseum, Vatican'' @ [CHR 0x0A]
            @ sent_by_form)"
    by (simp add: notes_of_def notesParts_def lead_flat_def join_def and_then_def
        participants_part_def tours_part_def)
  from tours_list_or_string [OF others a j b, of "''form''"] a j b n others [of "''npart''"]
  show ?thesis by simp
qed

text \<open>
  C10. An attempt that probes the lead-name field (the probe resolving) and finds it on
  the page types into it exactly once, and the text is the name converted to a string,
  or the empty string when the record has no name; it types nothing when the field is
  not on the page and, the one other case, when the name is a value whose conversion to
  a string throws, which ends the attempt there. The same holds for the lead-phone field
  and the phone.
\<close>

theorem lead_fields_typed:
  "(Invoke (Query sel_leadName) \<in> set (attempt env data src ip s)
      \<and> rejects env (Query sel_leadName) = None
    \<longrightarrow> typed sel_leadName (attempt env data src ip s) =
          (if present env sel_leadName
           then (if truthy (get data ''name'')
                 then (case ToString (get data ''name'') of Inl e \<Rightarrow> [] | Inr t \<Rightarrow> [t])
                 else [[]])
           else []))
   \<and> (Invoke (Query sel_leadPhone) \<in> set (attempt env data src ip s)
      \<and> rejects env (Query sel_leadPhone) = None
    \<longrightarrow> typed sel_leadPhone (attempt env data src ip s) =
          (if present env sel_leadPhone
           then (if truthy (get data ''phone'')
                 then (case ToString (get data ''phone'') of Inl e \<Rightarrow> [] | Inr t \<Rightarrow> [t])
                 else [[]])
           else []))"
proof (intro conjI impI)
  assume a: "Invoke (Query sel_leadName) \<in> set (attempt env data src ip s)
      \<and> rejects env (Query sel_leadName) = None"
  have "typed sel_leadName (attempt env data src ip s) =
          (if present env sel_leadName
           then (case lead_text (get data ''name'') of Inl e \<Rightarrow> [] | Inr t \<Rightarrow> [t])
           else [])"
  proof (rule field_fill)
    show "fillForm env data src =
            [invoke env ExecutablePath, invoke env Launch, invoke env NewPage,
             invoke env (Goto (ROCKETOUR_URL env) 30000),
             fill env sel_affiliateId (Inr (AFFILIATE_ID env)), fill env sel_city (Inr city_value)]
            @ fill env sel_leadName (lead_text (get data ''name''))
            # [fill env sel_leadPhone (lead_text (get data ''phone'')),
               fillNotes env data src]"
      by (simp add: fillForm_def)
  next
    fix m s
    assume "m \<in> set [invoke env ExecutablePath, invoke env Launch, invoke env NewPage,
             invoke env (Goto (ROCKETOUR_URL env) 30000),
             fill env sel_affiliateId (Inr (AFFILIATE_ID env)), fill env sel_city (Inr city_value)]"
    then consider c where "m = invoke env c" "not_probing sel_leadName (Invoke c)"
      | sel v where "m = fill env sel v" "sel \<noteq> sel_leadName"
      using selectors_distinct by fastforce
    then show "extends (not_probing sel_leadName) s (snd (m s))"
      by cases (simp_all add: extends_invoke extends_fill)
  next
    fix m s
    assume "m \<in> set [fill env sel_leadPhone (lead_text (get data ''phone'')),
               fillNotes env data src]"
    then consider sel v where "m = fill env sel v" "sel \<noteq> sel_leadName"
      | "m = fillNotes env data src"
      using selectors_distinct by fastforce
    then show "extends (not_probing sel_leadName) s (snd (m s))"
      by cases (simp_all add: extends_fill extends_fillNotes selectors_distinct)
  qed (use a selectors_distinct in simp_all)
  then show "typed sel_leadName (attempt env data src ip s) =
          (if present env sel_leadName
           then (if truthy (get data ''name'')
                 then (case ToString (get data ''name'') of Inl e \<Rightarrow> [] | Inr t \<Rightarrow> [t])
                 else [[]])
           else [])"
    by (simp add: lead_text_def)
next
  assume a: "Invoke (Query sel_leadPhone) \<in> set (attempt env data src ip s)
      \<and> rejects env (Query sel_leadPhone) = None"
  have "typed sel_leadPhone (attempt env data src ip s) =
          (if present env sel_leadPhone
           then (case lead_text (get data ''phone'') of Inl e \<Rightarrow> [] | Inr t \<Rightarrow> [t])
           else [])"
  proof (rule field_fill)
    show "fillForm env data src =
            [invoke env ExecutablePath, invoke env Launch, invoke env NewPage,
             invoke env (Goto (ROCKETOUR_URL env) 30000),
             fill env sel_affiliateId (Inr (AFFILIATE_ID env)), fill env sel_city (Inr city_value),
             fill env sel_leadName (lead_text (get data ''name''))]
            @ fill env sel_leadPhone (lead_text (get data ''phone''))
            # [fillNotes env data src]"
      by (simp add: fillForm_def)
  next
    fix m s
    assume "m \<in> set [invoke env ExecutablePath, invoke env Launch, invoke env NewPage,
             invoke env (Goto (ROCKETOUR_URL env) 30000),
             fill env sel_affiliateId (Inr (AFFILIATE_ID env)), fill env sel_city (Inr city_value),
             fill env sel_leadName (lead_text (get data ''name''))]"
    then consider c where "m = invoke env c" "not_probing sel_leadPhone (Invoke c)"
      | sel v where "m = fill env sel v" "sel \<noteq> sel_leadPhone"
      using selectors_distinct by fastforce
    then show "extends (not_probing sel_leadPhone) s (snd (m s))"
      by cases (simp_all add: extends_invoke extends_fill)
  next
    fix m s
    assume "m \<in> set [fillNotes env data src]"
    then show "extends (not_probing sel_leadPhone) s (snd (m s))"
      by (simp add: extends_fillNotes selectors_distinct)
  qed (use a selectors_distinct in simp_all)
  then show "typed sel_leadPhone (attempt env data src ip s) =
          (if present env sel_leadPhone
           then (if truthy (get data ''phone'')
                 then (case ToString (get data ''phone'') of Inl e \<Rightarrow> [] | Inr t \<Rightarrow> [t])
                 else [[]])
           else [])"
    by (simp add: lead_text_def)
qed

theorem lead_fields_typed_witness:
  "Invoke (Query sel_leadName) \<in> set (attempt quiet nameless ''form'' JUndefined init)
   \<and> rejects quiet (Query sel_leadName) = None
   \<and> present quiet sel_leadName
   \<and> \<not> truthy (get nameless ''name'')
   \<and> typed sel_leadName (attempt quiet nameless ''form'' JUndefined init) = [[]]
   \<and> Invoke (Query sel_leadPhone) \<in> set (attempt quiet nameless ''form'' JUndefined init)
   \<and> rejects quiet (Query sel_leadPhone) = None
   \<and> typed sel_leadPhone (attempt quiet nameless ''form'' JUndefined init) = [''0501234567'']"
proof -
  have q: "rejects quiet (Query sel_leadName) = None" "rejects quiet (Query sel_leadPhone) = None"
    "present quiet sel_leadName" "present quiet sel_leadPhone"
    by (simp_all add: quiet_def)
  have d: "\<not> truthy (get nameless ''name'')" "get nameless ''phone'' = JStr ''0501234567''"
    by (simp_all add: nameless_def)
  from lead_fields_typed [of quiet nameless "''form''" JUndefined init] quiet_trace q d
  show ?thesis by simp
qed

end
